theory Spec2Isabelle
  imports Complex_Main "HOL-Library.Product_Lexorder" "HOL-Library.Multiset"
begin

section \<open>Values of the census table\<close>

text \<open>
  The script keeps its data in one pandas table. A float64 cell holds a finite number,
  an infinity or NaN; pandas reads NaN as "missing". The operations of this section are
  those of the real numbers, with the NaN and infinity cases of the binary format: they
  say which cells an operation fills and with which formula. The rounding of every
  result to a double is added in the section on double precision below.
\<close>

datatype flt = Fin real | PInf | NInf | NaN

fun fneg :: "flt \<Rightarrow> flt" where
  "fneg (Fin a) = Fin (- a)"
| "fneg PInf = NInf"
| "fneg NInf = PInf"
| "fneg NaN = NaN"

fun fadd :: "flt \<Rightarrow> flt \<Rightarrow> flt" where
  "fadd (Fin a) (Fin b) = Fin (a + b)"
| "fadd NaN _ = NaN"
| "fadd _ NaN = NaN"
| "fadd PInf NInf = NaN"
| "fadd NInf PInf = NaN"
| "fadd PInf _ = PInf"
| "fadd _ PInf = PInf"
| "fadd NInf _ = NInf"
| "fadd _ NInf = NInf"

definition fsub :: "flt \<Rightarrow> flt \<Rightarrow> flt" where
  "fsub a b = fadd a (fneg b)"

definition isna :: "flt \<Rightarrow> bool" where
  "isna x = (x = NaN)"

text \<open>\<open>Series.sum()\<close> with its default \<open>skipna=True\<close>: the NaN entries are left out,
  the sum of no entry is 0.\<close>

definition series_sum :: "flt list \<Rightarrow> flt" where
  "series_sum xs = foldl fadd (Fin 0) (filter (\<lambda>x. \<not> isna x) xs)"

text \<open>\<open>Series.fillna(v)\<close>: every NaN entry becomes the scalar \<open>v\<close>.\<close>

definition fillna :: "flt \<Rightarrow> flt list \<Rightarrow> flt list" where
  "fillna v xs = map (\<lambda>x. if isna x then v else x) xs"

text \<open>The plain sum of a row (no entry left out), used to state what a row adds up to.\<close>

definition row_total :: "flt list \<Rightarrow> flt" where
  "row_total xs = foldl fadd (Fin 0) xs"

section \<open>Rows of the cleaned table\<close>

text \<open>
  After line 67 the table has eleven columns; line 103 adds \<open>Female_Proportion\<close>.
  \<open>State\<close> is text, \<open>TotalPop\<close> an integer column as \<open>read_csv\<close> delivers it
  (\<open>None\<close> for an empty field), \<open>Male\<close> and \<open>Female\<close> are nullable integers (Int64).
  A table is the list of its rows; the row index is the position in the list.
\<close>

record census_row =
  State :: "string option"
  TotalPop :: "int option"
  Hispanic :: flt
  White :: flt
  Black :: flt
  Native :: flt
  Asian :: flt
  Pacific :: flt
  Income :: flt
  Male :: "int option"
  Female :: "int option"

record state_record = census_row +
  Female_Proportion :: flt

section \<open>The Imputer (lines 145 to 148)\<close>

text \<open>\<open>df[demographic_cols]\<close>: the six percentage cells of a row, in the order of the list
  \<open>demographic_cols\<close>, and the assignment of six cells back to the row.\<close>

definition demographic_cols :: "'a census_row_scheme \<Rightarrow> flt list" where
  "demographic_cols r = [Hispanic r, White r, Black r, Native r, Asian r, Pacific r]"

definition set_demographic_cols :: "'a census_row_scheme \<Rightarrow> flt list \<Rightarrow> 'a census_row_scheme" where
  "set_demographic_cols r vs =
     r\<lparr>Hispanic := vs ! 0, White := vs ! 1, Black := vs ! 2,
       Native := vs ! 3, Asian := vs ! 4, Pacific := vs ! 5\<rparr>"

text \<open>The lambda of line 146:
  \<^verbatim>\<open>lambda row: row.fillna(100 - row.sum()) if row.isna().any() else row\<close>\<close>

definition impute_lambda :: "flt list \<Rightarrow> flt list" where
  "impute_lambda row =
     (if list_ex isna row then fillna (fsub (Fin 100) (series_sum row)) row else row)"

definition impute_row :: "'a census_row_scheme \<Rightarrow> 'a census_row_scheme" where
  "impute_row r = set_demographic_cols r (impute_lambda (demographic_cols r))"

definition Imputer :: "'a census_row_scheme list \<Rightarrow> 'a census_row_scheme list" where
  "Imputer df = map impute_row df"

section \<open>Double precision\<close>

text \<open>
  A double is a real number \<open>m * 2 ^ e\<close> with \<open>\<bar>m\<bar> < 2 ^ 53\<close> and \<open>e \<ge> -1074\<close>, below
  \<open>2 ^ 1024\<close> in size. Every arithmetic result is rounded to the nearest double, a tie to
  the one with the even \<open>m\<close>; a result that rounds to \<open>2 ^ 1024\<close> or beyond becomes an
  infinity. \<open>quantum x\<close> is the distance between the doubles around \<open>x\<close>.
\<close>

definition round_half_even :: "real \<Rightarrow> int" where
  "round_half_even y =
     (let f = \<lfloor>y\<rfloor>; d = y - of_int f
      in if d < 1/2 then f else if 1/2 < d then f + 1 else if even f then f else f + 1)"

definition quantum :: "real \<Rightarrow> real" where
  "quantum x = 2 powr (of_int (max \<lfloor>log 2 \<bar>x\<bar>\<rfloor> (- 1022)) - 52)"

definition round_double :: "real \<Rightarrow> real" where
  "round_double x = (if x = 0 then 0 else quantum x * of_int (round_half_even (x / quantum x)))"

definition to_double :: "real \<Rightarrow> flt" where
  "to_double x =
     (let y = round_double x
      in if 2 ^ 1024 \<le> y then PInf else if y \<le> - (2 ^ 1024) then NInf else Fin y)"

text \<open>Addition and subtraction of doubles: \<open>fadd\<close> and \<open>fsub\<close> with the rounding.\<close>

fun dadd :: "flt \<Rightarrow> flt \<Rightarrow> flt" where
  "dadd (Fin a) (Fin b) = to_double (a + b)"
| "dadd NaN _ = NaN"
| "dadd _ NaN = NaN"
| "dadd PInf NInf = NaN"
| "dadd NInf PInf = NaN"
| "dadd PInf _ = PInf"
| "dadd _ PInf = PInf"
| "dadd NInf _ = NInf"
| "dadd _ NInf = NInf"

definition dsub :: "flt \<Rightarrow> flt \<Rightarrow> flt" where
  "dsub a b = dadd a (fneg b)"

text \<open>\<open>Series.sum()\<close> on doubles: numpy adds the cells of a row from left to right,
  starting from 0, each sum rounded; the NaN cells are left out.\<close>

definition series_sum_double :: "flt list \<Rightarrow> flt" where
  "series_sum_double xs = foldl dadd (Fin 0) (filter (\<lambda>x. \<not> isna x) xs)"

text \<open>The lambda of line 146 and the Imputer on doubles.\<close>

definition impute_lambda_double :: "flt list \<Rightarrow> flt list" where
  "impute_lambda_double row =
     (if list_ex isna row then fillna (dsub (Fin 100) (series_sum_double row)) row else row)"

definition impute_row_double :: "'a census_row_scheme \<Rightarrow> 'a census_row_scheme" where
  "impute_row_double r = set_demographic_cols r (impute_lambda_double (demographic_cols r))"

definition Imputer_double :: "'a census_row_scheme list \<Rightarrow> 'a census_row_scheme list" where
  "Imputer_double df = map impute_row_double df"

text \<open>Finite cells and their values.\<close>

definition is_fin :: "flt \<Rightarrow> bool" where
  "is_fin x = (case x of Fin _ \<Rightarrow> True | _ \<Rightarrow> False)"

definition the_fin :: "flt \<Rightarrow> real" where
  "the_fin x = (case x of Fin v \<Rightarrow> v | _ \<Rightarrow> 0)"

section \<open>Errors\<close>

text \<open>The script catches nothing: an exception of pandas or Python ends the run. The
  exceptions that the cleaning stages can raise are values of this type.\<close>

datatype error =
    ValueError | AttributeError | KeyError "string list" | OverflowError | TypeError | LinAlgError

fun traverse :: "('a \<Rightarrow> error + 'b) \<Rightarrow> 'a list \<Rightarrow> error + 'b list" where
  "traverse f [] = Inr []"
| "traverse f (x # xs) =
     (case f x of
        Inl e \<Rightarrow> Inl e
      | Inr y \<Rightarrow> (case traverse f xs of Inl e \<Rightarrow> Inl e | Inr ys \<Rightarrow> Inr (y # ys)))"

section \<open>Python's conversions of text to numbers\<close>

text \<open>
  \<open>astype(float)\<close> on a column of strings calls Python's \<open>float\<close> on each string, and
  \<open>astype('Int64')\<close> calls \<open>int\<close>. A string is a list of characters with code points
  below 256. Both conversions first turn the blanks beyond ASCII (U+0085 and U+00A0
  among these characters) into spaces, then strip the ASCII white space (space and the
  characters 9 to 13) at both ends, take an optional sign and read digit groups that
  may be separated by single underscores. \<open>float\<close> returns the nearest double.
\<close>

definition to_ascii :: "char \<Rightarrow> char" where
  "to_ascii c = (if c = CHR 0x85 \<or> c = CHR 0xA0 then CHR '' '' else c)"

definition is_space :: "char \<Rightarrow> bool" where
  "is_space c = (c \<in> set [CHR '' '', CHR 0x09, CHR 0x0A, CHR 0x0B, CHR 0x0C, CHR 0x0D])"

definition strip :: "string \<Rightarrow> string" where
  "strip s = rev (dropWhile is_space (rev (dropWhile is_space s)))"

definition is_digit :: "char \<Rightarrow> bool" where
  "is_digit c = (c \<in> set ''0123456789'')"

definition digit_val :: "char \<Rightarrow> nat" where
  "digit_val c = of_char c - 48"

definition nat_of_digits :: "string \<Rightarrow> nat" where
  "nat_of_digits ds = foldl (\<lambda>a c. 10 * a + digit_val c) 0 ds"

fun digitpart :: "string \<Rightarrow> bool" where
  "digitpart [] = False"
| "digitpart [c] = is_digit c"
| "digitpart (c # d # cs) =
     (is_digit c \<and> (if d = CHR ''_'' then digitpart cs else digitpart (d # cs)))"

definition digitpart_val :: "string \<Rightarrow> nat" where
  "digitpart_val s = nat_of_digits (filter is_digit s)"

definition split_sign :: "string \<Rightarrow> int \<times> string" where
  "split_sign s =
     (case s of
        [] \<Rightarrow> (1, [])
      | c # cs \<Rightarrow> if c = CHR ''-'' then (- 1, cs) else if c = CHR ''+'' then (1, cs) else (1, s))"

definition py_int :: "string \<Rightarrow> error + int" where
  "py_int s =
     (let (sg, ds) = split_sign (strip (map to_ascii s))
      in if digitpart ds then Inr (sg * int (digitpart_val ds)) else Inl ValueError)"

definition lower :: "char \<Rightarrow> char" where
  "lower c = (if 65 \<le> (of_char c :: nat) \<and> (of_char c :: nat) \<le> 90
              then char_of (of_char c + (32::nat)) else c)"

text \<open>\<open>number\<close>: digits, with an optional point that has digits on at least one side.\<close>

definition number :: "string \<Rightarrow> real option" where
  "number m =
     (let ip = takeWhile (\<lambda>c. c \<noteq> CHR ''.'') m; r = dropWhile (\<lambda>c. c \<noteq> CHR ''.'') m
      in if r = [] \<or> tl r = [] then (if digitpart ip then Some (real (digitpart_val ip)) else None)
         else let fp = tl r
              in if digitpart fp \<and> (ip = [] \<or> digitpart ip)
                 then Some (real (digitpart_val ip)
                            + real (digitpart_val fp) / 10 ^ length (filter is_digit fp))
                 else None)"

definition exponent :: "string \<Rightarrow> int option" where
  "exponent e = (let (sg, ds) = split_sign e
                 in if digitpart ds then Some (sg * int (digitpart_val ds)) else None)"

definition scale :: "real \<Rightarrow> int \<Rightarrow> real" where
  "scale v k = (if 0 \<le> k then v * 10 ^ nat k else v / 10 ^ nat (- k))"

definition floatnumber :: "string \<Rightarrow> real option" where
  "floatnumber t =
     (let is_e = (\<lambda>c. c = CHR ''e'' \<or> c = CHR ''E'');
          m = takeWhile (\<lambda>c. \<not> is_e c) t; ex = dropWhile (\<lambda>c. \<not> is_e c) t
      in case number m of
           None \<Rightarrow> None
         | Some v \<Rightarrow> if ex = [] then Some v
                     else (case exponent (tl ex) of None \<Rightarrow> None | Some k \<Rightarrow> Some (scale v k)))"

definition py_float :: "string \<Rightarrow> error + flt" where
  "py_float s =
     (let (sg, t) = split_sign (strip (map to_ascii s)); l = map lower t
      in if l = ''inf'' \<or> l = ''infinity'' then Inr (if sg = 1 then PInf else NInf)
         else if l = ''nan'' then Inr NaN
         else (case floatnumber t of
                 None \<Rightarrow> Inl ValueError
               | Some v \<Rightarrow> Inr (to_double (real_of_int sg * v))))"

text \<open>Decimal notation of a natural number, to state what the conversions return.\<close>

definition digit_char :: "nat \<Rightarrow> char" where
  "digit_char d = ''0123456789'' ! d"

fun dec :: "nat \<Rightarrow> string" where
  "dec n = (if n < 10 then [digit_char n] else dec (n div 10) @ [digit_char (n mod 10)])"

declare dec.simps [simp del]

section \<open>The input files and their concatenation (lines 32 to 44)\<close>

text \<open>
  A file is its header and its rows as \<open>read_csv\<close> types them for the column set of the
  script: \<open>TotalPop\<close> an integer, the other columns text, an empty field \<open>None\<close> (NaN).
  A row's entry for a column that the file's header lacks does not exist in the file;
  \<open>pd.concat\<close> takes the union of the columns and fills such cells with NaN.
\<close>

record raw_row =
  raw_State :: "string option"
  raw_TotalPop :: "int option"
  raw_Hispanic :: "string option"
  raw_White :: "string option"
  raw_Black :: "string option"
  raw_Native :: "string option"
  raw_Asian :: "string option"
  raw_Pacific :: "string option"
  raw_Income :: "string option"
  raw_GenderPop :: "string option"

record csv_file =
  header :: "string list"
  body :: "raw_row list"

definition cell :: "string list \<Rightarrow> string \<Rightarrow> 'a option \<Rightarrow> 'a option" where
  "cell hdr c v = (if c \<in> set hdr then v else None)"

definition read_csv :: "csv_file \<Rightarrow> raw_row list" where
  "read_csv f =
     map (\<lambda>r. \<lparr>raw_State = cell (header f) ''State'' (raw_State r),
               raw_TotalPop = cell (header f) ''TotalPop'' (raw_TotalPop r),
               raw_Hispanic = cell (header f) ''Hispanic'' (raw_Hispanic r),
               raw_White = cell (header f) ''White'' (raw_White r),
               raw_Black = cell (header f) ''Black'' (raw_Black r),
               raw_Native = cell (header f) ''Native'' (raw_Native r),
               raw_Asian = cell (header f) ''Asian'' (raw_Asian r),
               raw_Pacific = cell (header f) ''Pacific'' (raw_Pacific r),
               raw_Income = cell (header f) ''Income'' (raw_Income r),
               raw_GenderPop = cell (header f) ''GenderPop'' (raw_GenderPop r)\<rparr>) (body f)"

text \<open>\<open>pd.concat(df_list, ignore_index=True)\<close>: no file at all is a \<open>ValueError\<close>
  ("No objects to concatenate").\<close>

definition concat_files :: "csv_file list \<Rightarrow> error + string list \<times> raw_row list" where
  "concat_files files =
     (if files = [] then Inl ValueError
      else Inr (concat (map header files), concat (map read_csv files)))"

text \<open>\<open>df[c]\<close> and \<open>df[[c1, ...]]\<close> raise \<open>KeyError\<close> for labels that are no column.\<close>

definition require :: "string list \<Rightarrow> string list \<Rightarrow> error + unit" where
  "require cols wanted =
     (if list_all (\<lambda>c. c \<in> set cols) wanted then Inr ()
      else Inl (KeyError (filter (\<lambda>c. c \<notin> set cols) wanted)))"

section \<open>The Field Normalizer (lines 52 to 79)\<close>

text \<open>\<open>replace(pattern, '', regex=True)\<close> for a pattern that matches one character of a
  set: every such character is deleted from a string cell, a NaN cell stays NaN.\<close>

definition remove_chars :: "string \<Rightarrow> string \<Rightarrow> string" where
  "remove_chars cs s = filter (\<lambda>c. c \<notin> set cs) s"

definition astype_float :: "string option \<Rightarrow> error + flt" where
  "astype_float c = (case c of None \<Rightarrow> Inr NaN | Some s \<Rightarrow> py_float s)"

text \<open>Line 52: \<^verbatim>\<open>df['Income'].replace('[$,]', '', regex=True).astype(float)\<close>\<close>

definition clean_Income :: "string option \<Rightarrow> error + flt" where
  "clean_Income c = astype_float (map_option (remove_chars ''$,'') c)"

text \<open>Line 79: \<^verbatim>\<open>df[demographic_cols].replace('%', '', regex=True).astype(float)\<close>\<close>

definition clean_percent :: "string option \<Rightarrow> error + flt" where
  "clean_percent c = astype_float (map_option (remove_chars ''%'') c)"

text \<open>\<open>str.split(sep)\<close> of Python: the pieces between the separators, the empty ones too.\<close>

fun split_on :: "char \<Rightarrow> string \<Rightarrow> string list" where
  "split_on sep [] = [[]]"
| "split_on sep (c # cs) =
     (if c = sep then [] # split_on sep cs
      else (case split_on sep cs of p # ps \<Rightarrow> (c # p) # ps | [] \<Rightarrow> [[c]]))"

text \<open>
  Line 61: \<^verbatim>\<open>df['GenderPop'].str.split('_', expand=True)\<close>. The \<open>.str\<close> accessor
  raises \<open>AttributeError\<close> on a column without any string (its dtype is float64 then).
  The result has as many columns as the longest split; shorter rows and NaN rows are
  padded with \<open>None\<close>.
\<close>

definition split_width :: "string list option list \<Rightarrow> nat" where
  "split_width parts = foldr max (map (\<lambda>p. case p of None \<Rightarrow> 0 | Some ps \<Rightarrow> length ps) parts) 0"

definition pad :: "nat \<Rightarrow> string list option \<Rightarrow> string option list" where
  "pad w p = (case p of None \<Rightarrow> replicate w None
                      | Some ps \<Rightarrow> map Some ps @ replicate (w - length ps) None)"

definition str_split_expand :: "string option list \<Rightarrow> error + string option list list" where
  "str_split_expand col =
     (if col \<noteq> [] \<and> list_all (\<lambda>c. c = None) col then Inl AttributeError
      else let parts = map (map_option (split_on CHR ''_'')) col
           in Inr (map (pad (split_width parts)) parts))"

text \<open>Line 64: \<^verbatim>\<open>gender_split.apply(lambda x: x.str[:-1]).replace('', pd.NA).astype('Int64')\<close>,
  cell by cell, and the assignment to the two columns \<open>Male\<close> and \<open>Female\<close>, which raises
  \<open>ValueError\<close> unless the frame on the right has exactly two columns. A number outside
  the range of a 64-bit integer raises \<open>OverflowError\<close>.\<close>

definition strip_marker :: "string option \<Rightarrow> string option" where
  "strip_marker c = map_option butlast c"

definition replace_empty :: "string option \<Rightarrow> string option" where
  "replace_empty c = (if c = Some [] then None else c)"

definition astype_Int64 :: "string option \<Rightarrow> error + int option" where
  "astype_Int64 c =
     (case c of
        None \<Rightarrow> Inr None
      | Some s \<Rightarrow>
          (case py_int s of
             Inl e \<Rightarrow> Inl e
           | Inr n \<Rightarrow> if - (2 ^ 63) \<le> n \<and> n < 2 ^ 63 then Inr (Some n) else Inl OverflowError))"

definition gender_cell :: "string option \<Rightarrow> error + int option" where
  "gender_cell c = astype_Int64 (replace_empty (strip_marker c))"

definition gender_columns :: "string option list \<Rightarrow> error + (int option \<times> int option) list" where
  "gender_columns col =
     (case str_split_expand col of
        Inl e \<Rightarrow> Inl e
      | Inr gender_split \<Rightarrow>
          (case traverse (traverse gender_cell) gender_split of
             Inl e \<Rightarrow> Inl e
           | Inr cells \<Rightarrow>
               if list_all (\<lambda>r. length r = 2) cells \<and> cells \<noteq> []
               then Inr (map (\<lambda>r. (r ! 0, r ! 1)) cells)
               else Inl ValueError))"

definition raw_demographic_cols :: "raw_row \<Rightarrow> string option list" where
  "raw_demographic_cols r =
     [raw_Hispanic r, raw_White r, raw_Black r, raw_Native r, raw_Asian r, raw_Pacific r]"

definition make_row :: "raw_row \<Rightarrow> flt \<Rightarrow> int option \<times> int option \<Rightarrow> flt list \<Rightarrow> census_row" where
  "make_row r inc g ps =
     \<lparr>State = raw_State r, TotalPop = raw_TotalPop r,
      Hispanic = ps ! 0, White = ps ! 1, Black = ps ! 2,
      Native = ps ! 3, Asian = ps ! 4, Pacific = ps ! 5,
      Income = inc, Male = fst g, Female = snd g\<rparr>"

text \<open>Lines 52 to 79 on the concatenated table, in the order of the script.\<close>

definition Field_Normalizer :: "string list \<times> raw_row list \<Rightarrow> error + census_row list" where
  "Field_Normalizer t =
     (let cols = fst t; rows = snd t in
      case require cols [''Income''] of Inl e \<Rightarrow> Inl e | Inr _ \<Rightarrow>
      case traverse clean_Income (map raw_Income rows) of Inl e \<Rightarrow> Inl e | Inr incomes \<Rightarrow>
      case require cols [''GenderPop''] of Inl e \<Rightarrow> Inl e | Inr _ \<Rightarrow>
      case gender_columns (map raw_GenderPop rows) of Inl e \<Rightarrow> Inl e | Inr genders \<Rightarrow>
      case require cols [''State'', ''TotalPop'', ''Hispanic'', ''White'', ''Black'',
                         ''Native'', ''Asian'', ''Pacific''] of Inl e \<Rightarrow> Inl e | Inr _ \<Rightarrow>
      case traverse (traverse clean_percent) (map raw_demographic_cols rows) of
        Inl e \<Rightarrow> Inl e
      | Inr percents \<Rightarrow>
          Inr (map (\<lambda>(r, inc, g, ps). make_row r inc g ps)
                 (zip rows (zip incomes (zip genders percents)))))"

section \<open>The Deduplicator (lines 87 to 95)\<close>

text \<open>
  \<open>df.duplicated()\<close> marks a row when an equal row stands before it (\<open>keep='first'\<close>);
  two NaN cells count as equal there, as two \<open>NaN\<close> of the model do. A frame carries the
  index label of each row: \<open>drop_duplicates\<close> keeps the labels of the rows it keeps, and
  \<open>reset_index(drop=True)\<close> numbers the rows anew from 0.
\<close>

type_synonym 'a frame = "(nat \<times> 'a) list"

definition frame_of :: "'a list \<Rightarrow> 'a frame" where
  "frame_of df = zip [0..<length df] df"

definition rows_of :: "'a frame \<Rightarrow> 'a list" where
  "rows_of fr = map snd fr"

fun duplicated_from :: "'a list \<Rightarrow> 'a list \<Rightarrow> bool list" where
  "duplicated_from seen [] = []"
| "duplicated_from seen (x # xs) = (x \<in> set seen) # duplicated_from (seen @ [x]) xs"

definition duplicated :: "'a frame \<Rightarrow> bool list" where
  "duplicated fr = duplicated_from [] (rows_of fr)"

definition duplicate_count :: "'a frame \<Rightarrow> nat" where
  "duplicate_count fr = length (filter (\<lambda>d. d) (duplicated fr))"

definition drop_duplicates :: "'a frame \<Rightarrow> 'a frame" where
  "drop_duplicates fr = map snd (filter (\<lambda>p. \<not> fst p) (zip (duplicated fr) fr))"

definition reset_index :: "'a frame \<Rightarrow> 'a frame" where
  "reset_index fr = zip [0..<length fr] (rows_of fr)"

definition Deduplicator :: "'a list \<Rightarrow> 'a frame" where
  "Deduplicator df = reset_index (drop_duplicates (frame_of df))"

section \<open>The Feature Deriver (lines 103 and 104)\<close>

text \<open>
  \<open>Female\<close> is a nullable integer column and \<open>TotalPop\<close> an integer column (float64 when
  it has gaps). Their quotient is computed by numpy with the floating-point errors
  switched off: both operands are converted to doubles and divided, a zero divisor
  gives an infinity, or NaN for 0 / 0; a missing operand gives NaN after
  \<open>astype(float)\<close>. The division raises nothing.
\<close>

definition int_to_double :: "int \<Rightarrow> real" where
  "int_to_double n = round_double (real_of_int n)"

definition true_divide :: "int option \<Rightarrow> int option \<Rightarrow> flt" where
  "true_divide a b =
     (case (a, b) of
        (Some x, Some y) \<Rightarrow>
          if y = 0 then (if x = 0 then NaN else if 0 < x then PInf else NInf)
          else to_double (int_to_double x / int_to_double y)
      | _ \<Rightarrow> NaN)"

definition derive_row :: "census_row \<Rightarrow> state_record" where
  "derive_row r =
     \<lparr>State = State r, TotalPop = TotalPop r,
      Hispanic = Hispanic r, White = White r, Black = Black r,
      Native = Native r, Asian = Asian r, Pacific = Pacific r,
      Income = Income r, Male = Male r, Female = Female r,
      Female_Proportion = true_divide (Female r) (TotalPop r)\<rparr>"

definition Feature_Deriver :: "census_row list \<Rightarrow> state_record list" where
  "Feature_Deriver df = map derive_row df"

section \<open>The top five states by income (line 196)\<close>

text \<open>
  \<open>df.nlargest(n, 'Income')\<close> with its default \<open>keep='first'\<close>: the first \<open>n\<close> rows in
  descending order of \<open>Income\<close>, rows of equal income in their original order, rows
  without an income after all others. The key below turns that order into an ascending
  one, and \<open>sort_key\<close> is a stable sort.
\<close>

definition income_key :: "flt \<Rightarrow> nat \<times> real" where
  "income_key x = (case x of PInf \<Rightarrow> (0, 0) | Fin v \<Rightarrow> (1, - v) | NInf \<Rightarrow> (2, 0) | NaN \<Rightarrow> (3, 0))"

definition nlargest :: "nat \<Rightarrow> state_record list \<Rightarrow> state_record list" where
  "nlargest n df = take n (sort_key (\<lambda>r. income_key (Income r)) df)"

definition top_income_states :: "state_record list \<Rightarrow> (string option \<times> flt \<times> flt) list" where
  "top_income_states df = map (\<lambda>r. (State r, Income r, Female_Proportion r)) (nlargest 5 df)"

section \<open>The charts (lines 121 and 159)\<close>

text \<open>
  Two calls of the reporting part can end the run. \<open>np.polyfit\<close> of line 121 fits
  \<open>Income\<close> against \<open>Female_Proportion\<close>: it raises \<open>TypeError\<close> for an empty table and
  \<open>LinAlgError\<close> when a \<open>Female_Proportion\<close> is NaN or an infinity (the least-squares
  routine does not converge). Whether it also raises when only an \<open>Income\<close> is NaN or
  an infinity depends on the linear algebra library; the model takes this as the
  parameter \<open>rhs_checked\<close>. \<open>plt.hist\<close> of line 159 raises \<open>ValueError\<close> for a column
  with a NaN or an infinity (the range of the bins is not finite).
\<close>

definition polyfit :: "bool \<Rightarrow> flt list \<Rightarrow> flt list \<Rightarrow> error + unit" where
  "polyfit rhs_checked x y =
     (if x = [] then Inl TypeError
      else if list_ex (\<lambda>v. \<not> is_fin v) x then Inl LinAlgError
      else if rhs_checked \<and> list_ex (\<lambda>v. \<not> is_fin v) y then Inl LinAlgError
      else Inr ())"

text \<open>The loop of lines 157 to 178: one histogram file per demographic column, in the
  order of the columns, up to the first column that \<open>plt.hist\<close> refuses.\<close>

fun histograms :: "(string \<times> flt list) list \<Rightarrow> string list \<times> (error + unit)" where
  "histograms [] = ([], Inr ())"
| "histograms ((name, vals) # cols) =
     (if list_all is_fin vals
      then (let (written, r) = histograms cols in ((name @ ''_distribution.png'') # written, r))
      else ([], Inl ValueError))"

definition histogram_columns :: "state_record list \<Rightarrow> (string \<times> flt list) list" where
  "histogram_columns df =
     [(''hispanic'', map Hispanic df), (''white'', map White df), (''black'', map Black df),
      (''native'', map Native df), (''asian'', map Asian df), (''pacific'', map Pacific df)]"

section \<open>The run\<close>

text \<open>
  The stages in the order of the script. The result of a run is the list of the files
  it has written, in the order of writing, and either the exception that ended it or
  the top-five report with the exported table. The other plotting calls and the console
  report compute nothing that a later stage reads, and are left out.
\<close>

record outputs =
  report :: "(string option \<times> flt \<times> flt) list"
  exported :: "state_record list"

definition clean :: "csv_file list \<Rightarrow> error + state_record list" where
  "clean files =
     (case concat_files files of
        Inl e \<Rightarrow> Inl e
      | Inr t \<Rightarrow>
          (case Field_Normalizer t of
             Inl e \<Rightarrow> Inl e
           | Inr df \<Rightarrow> Inr (Feature_Deriver (rows_of (Deduplicator df)))))"

definition run :: "bool \<Rightarrow> csv_file list \<Rightarrow> string list \<times> (error + outputs)" where
  "run rhs_checked files =
     (case clean files of
        Inl e \<Rightarrow> ([], Inl e)
      | Inr df \<Rightarrow>
          (case polyfit rhs_checked (map Female_Proportion df) (map Income df) of
             Inl e \<Rightarrow> ([], Inl e)
           | Inr _ \<Rightarrow>
               (let df' = Imputer_double df;
                    (pngs, r) = histograms (histogram_columns df')
                in case r of
                     Inl e \<Rightarrow> (''income_vs_female_proportion.png'' # pngs, Inl e)
                   | Inr _ \<Rightarrow>
                       (''income_vs_female_proportion.png'' # pngs @ [''cleaned_us_census_data.csv''],
                        Inr \<lparr>report = top_income_states df', exported = df'\<rparr>))))"

section \<open>Notions used in the statements\<close>

text \<open>Row \<open>j\<close> is an exact duplicate of an earlier row: some row before it is equal to it in
  every column. This is the notion of the specification, stated apart from the code.\<close>

definition is_duplicate :: "'a list \<Rightarrow> nat \<Rightarrow> bool" where
  "is_duplicate df j = list_ex (\<lambda>i. df ! i = df ! j) [0..<j]"


text \<open>The column set of the input files.\<close>

definition required_columns :: "string list" where
  "required_columns = [''State'', ''TotalPop'', ''Hispanic'', ''White'', ''Black'',
                       ''Native'', ''Asian'', ''Pacific'', ''Income'', ''GenderPop'']"

text \<open>A whole amount of money as the input files write it: the symbol \<open>$\<close>, then the
  decimal digits in groups of three from the right, separated by commas.\<close>

fun group3 :: "string \<Rightarrow> string" where
  "group3 (a # b # c # d # ds) = a # b # c # CHR '','' # group3 (d # ds)"
| "group3 ds = ds"

definition currency :: "nat \<Rightarrow> string" where
  "currency n = CHR ''$'' # rev (group3 (rev (dec n)))"

section \<open>Sample rows and files\<close>

definition row_a :: state_record where
  "row_a = \<lparr>State = Some ''Test'', TotalPop = Some 1000,
            Hispanic = Fin 10, White = Fin 70, Black = Fin 5, Native = Fin 0,
            Asian = Fin 5, Pacific = Fin 10, Income = Fin 50000,
            Male = Some 400, Female = Some 600, Female_Proportion = Fin (3/5)\<rparr>"

text \<open>No cell missing, the six percentages add up to 60.\<close>

definition row_b :: state_record where
  "row_b = \<lparr>State = Some ''Test'', TotalPop = Some 1000,
            Hispanic = Fin 10, White = Fin 20, Black = Fin 10, Native = Fin 5,
            Asian = Fin 10, Pacific = Fin 5, Income = Fin 50000,
            Male = Some 400, Female = Some 600, Female_Proportion = Fin (3/5)\<rparr>"

text \<open>One cell missing.\<close>

definition row_c :: state_record where
  "row_c = \<lparr>State = Some ''Test'', TotalPop = Some 1000,
            Hispanic = Fin 10, White = Fin 80, Black = NaN, Native = Fin 0,
            Asian = Fin 5, Pacific = Fin 5, Income = Fin 50000,
            Male = Some 400, Female = Some 600, Female_Proportion = Fin (3/5)\<rparr>"

text \<open>Two cells missing.\<close>

definition row_d :: state_record where
  "row_d = \<lparr>State = Some ''Test'', TotalPop = Some 1000,
            Hispanic = Fin 10, White = NaN, Black = NaN, Native = Fin 0,
            Asian = Fin 5, Pacific = Fin 5, Income = Fin 50000,
            Male = Some 400, Female = Some 600, Female_Proportion = Fin (3/5)\<rparr>"

definition census_a :: census_row where
  "census_a = \<lparr>State = Some ''Alabama'', TotalPop = Some 4830620,
               Hispanic = Fin 3.75, White = Fin 61.88, Black = Fin 31.25, Native = Fin 0.45,
               Asian = Fin 1.05, Pacific = NaN, Income = Fin 43296,
               Male = Some 2341093, Female = Some 2489527\<rparr>"

definition census_b :: census_row where
  "census_b = \<lparr>State = Some ''Alaska'', TotalPop = Some 733375,
               Hispanic = Fin 5.91, White = Fin 60.91, Black = Fin 2.85, Native = Fin 16.39,
               Asian = Fin 5.45, Pacific = Fin 1.06, Income = Fin 70354,
               Male = Some 384160, Female = Some 349215\<rparr>"

text \<open>A row with no population.\<close>

definition census_z :: census_row where
  "census_z = \<lparr>State = Some ''Nowhere'', TotalPop = Some 0,
               Hispanic = Fin 10, White = Fin 70, Black = Fin 5, Native = Fin 0,
               Asian = Fin 5, Pacific = Fin 10, Income = Fin 50000,
               Male = Some 400, Female = Some 600\<rparr>"

text \<open>An input file with that row as its only row.\<close>

definition raw_nowhere :: raw_row where
  "raw_nowhere = \<lparr>raw_State = Some ''Nowhere'', raw_TotalPop = Some 0,
     raw_Hispanic = Some ''10%'', raw_White = Some ''70%'', raw_Black = Some ''5%'',
     raw_Native = Some ''0%'', raw_Asian = Some ''5%'', raw_Pacific = Some ''10%'',
     raw_Income = Some ''$50,000'', raw_GenderPop = Some ''400M_600F''\<rparr>"

definition file_nowhere :: csv_file where
  "file_nowhere = \<lparr>header = required_columns, body = [raw_nowhere]\<rparr>"

text \<open>A table of six states with their incomes.\<close>

definition sample_state :: "string \<Rightarrow> real \<Rightarrow> state_record" where
  "sample_state name inc =
     \<lparr>State = Some name, TotalPop = Some 1000,
      Hispanic = Fin 10, White = Fin 70, Black = Fin 5, Native = Fin 0,
      Asian = Fin 5, Pacific = Fin 10, Income = Fin inc,
      Male = Some 400, Female = Some 600, Female_Proportion = Fin (3/5)\<rparr>"

definition six_states :: "state_record list" where
  "six_states = [sample_state ''A'' 10, sample_state ''B'' 30, sample_state ''C'' 20,
                 sample_state ''D'' 30, sample_state ''E'' 5, sample_state ''F'' 40]"

section \<open>Properties of the Imputer\<close>

lemma set_demographic_cols_same:
  "set_demographic_cols r (demographic_cols r) = r"
  by (simp add: set_demographic_cols_def demographic_cols_def)

lemma impute_row_complete:
  "\<not> list_ex isna (demographic_cols r) \<Longrightarrow> impute_row r = r"
  by (simp add: impute_row_def impute_lambda_def set_demographic_cols_same)

text \<open>
  Claim C5. A table in which no demographic cell is missing comes back from the Imputer
  unchanged: the same rows, with every cell of every column as it was.
\<close>

theorem Imputer_no_missing_unchanged:
  assumes "\<forall>r \<in> set df. \<not> list_ex isna (demographic_cols r)"
  shows "Imputer df = df"
  unfolding Imputer_def using assms
  by (simp add: impute_row_complete map_idI)

theorem Imputer_no_missing_unchanged_witness:
  "\<not> list_ex isna (demographic_cols row_a) \<and> Imputer [row_a] = [row_a]"
proof -
  have h: "\<forall>r \<in> set [row_a]. \<not> list_ex isna (demographic_cols r)"
    by (simp add: row_a_def demographic_cols_def isna_def)
  from Imputer_no_missing_unchanged [OF h] h show ?thesis by simp
qed

lemma length_impute_lambda: "length (impute_lambda vs) = length vs"
  by (simp add: impute_lambda_def fillna_def)

lemma length_demographic_cols: "length (demographic_cols r) = 6"
  by (simp add: demographic_cols_def)

lemma demographic_cols_set:
  "length vs = 6 \<Longrightarrow> demographic_cols (set_demographic_cols r vs) = vs"
  by (simp add: demographic_cols_def set_demographic_cols_def list_eq_iff_nth_eq
      less_Suc_eq numeral_eq_Suc All_less_Suc)

lemma demographic_cols_impute_row:
  "demographic_cols (impute_row r) = impute_lambda (demographic_cols r)"
  by (simp add: impute_row_def demographic_cols_set length_impute_lambda length_demographic_cols)

lemma is_fin_simps: "is_fin (Fin v)" "\<not> is_fin NaN" "\<not> is_fin PInf" "\<not> is_fin NInf"
  by (simp_all add: is_fin_def)

lemma the_fin_simps: "the_fin (Fin v) = v" "the_fin NaN = 0"
  by (simp_all add: the_fin_def)

text \<open>Adding up finite cells is the addition of their values.\<close>

lemma foldl_fadd_fin:
  "list_all is_fin xs \<Longrightarrow> foldl fadd (Fin a) xs = Fin (a + sum_list (map the_fin xs))"
proof (induction xs arbitrary: a)
  case Nil
  then show ?case by simp
next
  case (Cons x xs)
  from Cons.prems obtain v where x: "x = Fin v"
    by (cases x) (simp_all add: is_fin_def)
  from Cons.prems have "list_all is_fin xs" by simp
  from Cons.IH [OF this, of "a + v"] show ?case
    by (simp add: x the_fin_def add.assoc)
qed

lemma series_sum_fin:
  assumes "list_all (\<lambda>x. isna x \<or> is_fin x) xs"
  shows "series_sum xs = Fin (sum_list (map the_fin (filter (\<lambda>x. \<not> isna x) xs)))"
proof -
  have "list_all is_fin (filter (\<lambda>x. \<not> isna x) xs)"
    using assms by (induction xs) auto
  from foldl_fadd_fin [OF this, of 0] show ?thesis
    by (simp add: series_sum_def)
qed

lemma the_fin_skip_nan:
  "sum_list (map the_fin (filter (\<lambda>x. \<not> isna x) xs)) = sum_list (map the_fin xs)"
  by (induction xs) (auto simp: isna_def the_fin_def)

text \<open>Filling the only gap of a row with \<open>c\<close> adds \<open>c\<close> to what the row adds up to.\<close>

lemma fillna_one_sum:
  assumes "list_all (\<lambda>x. isna x \<or> is_fin x) xs" and "length (filter isna xs) = 1"
  shows "list_all is_fin (fillna (Fin c) xs)
         \<and> sum_list (map the_fin (fillna (Fin c) xs)) = sum_list (map the_fin xs) + c"
  using assms
proof (induction xs)
  case Nil
  then show ?case by simp
next
  case (Cons x xs)
  show ?case
  proof (cases "isna x")
    case True
    with Cons.prems have none: "filter isna xs = []" by simp
    then have nn: "\<forall>y \<in> set xs. \<not> isna y" by (simp add: filter_empty_conv)
    then have same: "fillna (Fin c) xs = xs"
      by (simp add: fillna_def map_idI)
    from Cons.prems nn have "list_all is_fin xs" by (auto simp: list_all_iff)
    with True same show ?thesis
      by (simp add: fillna_def is_fin_simps the_fin_simps isna_def)
  next
    case False
    with Cons.prems have "list_all (\<lambda>x. isna x \<or> is_fin x) xs"
      "length (filter isna xs) = 1" "is_fin x"
      by simp_all
    with Cons.IH False show ?thesis
      by (simp add: fillna_def)
  qed
qed

lemma impute_row_other_fields:
  "State (impute_row r) = State r" "TotalPop (impute_row r) = TotalPop r"
  "Income (impute_row r) = Income r" "Male (impute_row r) = Male r"
  "Female (impute_row r) = Female r" "census_row.more (impute_row r) = census_row.more r"
  by (simp_all add: impute_row_def set_demographic_cols_def)

lemma impute_lambda_keeps:
  "k < length vs \<Longrightarrow> \<not> isna (vs ! k) \<Longrightarrow> impute_lambda vs ! k = vs ! k"
  by (simp add: impute_lambda_def fillna_def)



text \<open>
  Claim C2, as stated: a row with at most one missing demographic cell, the others
  finite, adds up to 100 after the imputation. It fails for a row with no missing cell:
  such a row is passed through with whatever sum it came with, here 60, in the
  arithmetic of the reals and in that of the doubles.
\<close>

theorem Imputer_complete_row_keeps_its_sum:
  "length (filter isna (demographic_cols row_b)) \<le> 1
   \<and> list_all (\<lambda>x. isna x \<or> is_fin x) (demographic_cols row_b)
   \<and> row_total (demographic_cols (Imputer [row_b] ! 0)) = Fin 60
   \<and> row_total (demographic_cols (Imputer [row_b] ! 0)) \<noteq> Fin 100
   \<and> demographic_cols (Imputer_double [row_b] ! 0) = [Fin 10, Fin 20, Fin 10, Fin 5, Fin 10, Fin 5]
   \<and> sum_list (map the_fin (demographic_cols (Imputer_double [row_b] ! 0))) = 60"
  by (simp add: Imputer_def impute_row_def impute_lambda_def row_b_def demographic_cols_def
      set_demographic_cols_def isna_def is_fin_def row_total_def the_fin_def
      Imputer_double_def impute_row_double_def impute_lambda_double_def)

subsection \<open>Rounding to doubles\<close>

lemma round_half_even_error: "\<bar>of_int (round_half_even y) - y\<bar> \<le> 1/2"
  unfolding round_half_even_def Let_def by (auto simp: abs_if) linarith+

lemma round_half_even_of_int: "round_half_even (of_int z) = z"
  by (simp add: round_half_even_def)

lemma quantum_pos: "0 < quantum x"
  by (simp add: quantum_def)

lemma round_double_error: "\<bar>round_double x - x\<bar> \<le> quantum x / 2"
proof (cases "x = 0")
  case True
  then show ?thesis using quantum_pos [of x] by (simp add: round_double_def)
next
  case False
  let ?q = "quantum x"
  have "round_double x - x = ?q * (of_int (round_half_even (x / ?q)) - x / ?q)"
    using False quantum_pos [of x] by (simp add: round_double_def right_diff_distrib)
  then have "\<bar>round_double x - x\<bar> = ?q * \<bar>of_int (round_half_even (x / ?q)) - x / ?q\<bar>"
    using quantum_pos [of x] by (simp add: abs_mult)
  also have "\<dots> \<le> ?q * (1/2)"
    using quantum_pos [of x] round_half_even_error [of "x / ?q"]
    by (intro mult_left_mono) simp_all
  finally show ?thesis by simp
qed

lemma quantum_le:
  assumes "x \<noteq> 0" and "\<bar>x\<bar> \<le> 1024"
  shows "quantum x \<le> 1 / 2 ^ 42"
proof -
  have "log 2 \<bar>x\<bar> \<le> log 2 1024" using assms by simp
  also have "(1024::real) = 2 ^ 10" by simp
  also have "log 2 (2 ^ 10) = (10::real)" by (subst log_nat_power) simp_all
  finally have "\<lfloor>log 2 \<bar>x\<bar>\<rfloor> \<le> 10" by (simp add: floor_le_iff)
  then have "real_of_int (max \<lfloor>log 2 \<bar>x\<bar>\<rfloor> (- 1022)) - 52 \<le> - 42" by simp
  then have "quantum x \<le> 2 powr (- 42)"
    unfolding quantum_def by (intro powr_mono) simp_all
  also have "\<dots> = 1 / 2 ^ 42" by (simp add: powr_minus_divide)
  finally show ?thesis .
qed

lemma round_double_near:
  assumes "\<bar>x\<bar> \<le> 1024"
  shows "\<bar>round_double x - x\<bar> \<le> 1 / 2 ^ 43"
proof (cases "x = 0")
  case True
  then show ?thesis by (simp add: round_double_def)
next
  case False
  have "\<bar>round_double x - x\<bar> \<le> quantum x / 2" by (rule round_double_error)
  also have "\<dots> \<le> (1 / 2 ^ 42) / 2" using quantum_le [OF False assms] by simp
  finally show ?thesis by simp
qed

lemma round_double_exact:
  assumes "\<bar>m\<bar> < 2 ^ 53" and "- 1074 \<le> j"
  shows "round_double (of_int m * 2 powr of_int j) = of_int m * 2 powr of_int j"
proof (cases "m = 0")
  case True
  then show ?thesis by (simp add: round_double_def)
next
  case False
  let ?x = "real_of_int m * 2 powr of_int j"
  let ?E = "max \<lfloor>log 2 \<bar>?x\<bar>\<rfloor> (- 1022)"
  from False have x0: "?x \<noteq> 0" by simp
  have "\<bar>?x\<bar> = real_of_int \<bar>m\<bar> * 2 powr of_int j" by (simp add: abs_mult)
  also have "\<dots> < 2 ^ 53 * 2 powr of_int j"
    using assms(1) by (intro mult_strict_right_mono) (simp_all add: of_int_less_iff [symmetric] del: of_int_less_iff)
  also have "\<dots> = 2 powr (53 + of_int j)" by (simp add: powr_add powr_realpow [symmetric])
  finally have "log 2 \<bar>?x\<bar> < 53 + of_int j"
    using x0 by (subst log_less_iff) simp_all
  then have "\<lfloor>log 2 \<bar>?x\<bar>\<rfloor> < 53 + j" by (simp add: floor_less_iff)
  with assms(2) have k: "0 \<le> j + 52 - ?E" by simp
  define k where "k = nat (j + 52 - ?E)"
  have q: "quantum ?x = 2 powr (of_int ?E - 52)" by (simp add: quantum_def)
  have "?x / quantum ?x = real_of_int m * 2 powr (of_int j - (of_int ?E - 52))"
    unfolding q by (simp add: powr_diff)
  also have "of_int j - (of_int ?E - 52) = real k"
    using k unfolding k_def by simp
  also have "real_of_int m * 2 powr real k = of_int (m * 2 ^ k)"
    by (simp add: powr_realpow)
  finally have ratio: "?x / quantum ?x = of_int (m * 2 ^ k)" .
  have "round_double ?x = quantum ?x * of_int (m * 2 ^ k)"
    using x0 unfolding round_double_def ratio round_half_even_of_int by simp
  also have "\<dots> = quantum ?x * (?x / quantum ?x)" by (simp only: ratio)
  also have "\<dots> = ?x" using quantum_pos [of ?x] by simp
  finally show ?thesis .
qed

lemma round_double_of_int:
  assumes "\<bar>n\<bar> \<le> 2 ^ 53"
  shows "round_double (of_int n) = of_int n"
proof (cases "\<bar>n\<bar> < 2 ^ 53")
  case True
  from round_double_exact [OF True, of 0] show ?thesis by simp
next
  case False
  with assms have "\<bar>n\<bar> = 2 ^ 53" by simp
  then consider "n = 2 ^ 53" | "n = - (2 ^ 53)" by (auto simp: abs_if split: if_splits)
  then show ?thesis
  proof cases
    case 1
    from round_double_exact [of "2 ^ 52" 1] show ?thesis by (simp add: 1)
  next
    case 2
    from round_double_exact [of "- (2 ^ 52)" 1] show ?thesis by (simp add: 2)
  qed
qed

lemma to_double_of_int:
  assumes "\<bar>n\<bar> \<le> 2 ^ 53"
  shows "to_double (of_int n) = Fin (of_int n)"
proof -
  have "\<bar>real_of_int n\<bar> \<le> 2 ^ 53"
    using assms by (simp add: of_int_le_iff [symmetric] del: of_int_le_iff)
  moreover have "(2::real) ^ 53 < 2 ^ 1024" by (rule power_strict_increasing) simp_all
  ultimately have "real_of_int n < 2 ^ 1024" "- (2 ^ 1024) < real_of_int n" by linarith+
  then show ?thesis
    by (simp add: to_double_def round_double_of_int [OF assms] Let_def)
qed

lemma round_double_odd: "round_double 9007199254740993 = 9007199254740992"
proof -
  have e: "\<lfloor>log 2 (9007199254740993::real)\<rfloor> = 53"
    by (subst floor_log_eq_powr_iff) simp_all
  have q: "quantum 9007199254740993 = 2" by (simp add: quantum_def e)
  show ?thesis
    by (simp add: round_double_def q round_half_even_def)
qed


lemma to_double_numeral:
  "(numeral w :: int) \<le> 2 ^ 53 \<Longrightarrow> to_double (numeral w) = Fin (numeral w)"
  using to_double_of_int [of "numeral w"] by simp

lemma to_double_neg_numeral:
  "(numeral w :: int) \<le> 2 ^ 53 \<Longrightarrow> to_double (- numeral w) = Fin (- numeral w)"
  using to_double_of_int [of "- numeral w"] by simp

lemma to_double_0: "to_double 0 = Fin 0"
  using to_double_of_int [of 0] by simp

lemma to_double_1: "to_double 1 = Fin 1"
  using to_double_of_int [of 1] by simp

lemmas to_double_simps = to_double_numeral to_double_neg_numeral to_double_0 to_double_1

lemma to_double_near:
  assumes "\<bar>x\<bar> \<le> 1024"
  shows "\<exists>v. to_double x = Fin v \<and> \<bar>v - x\<bar> \<le> 1 / 2 ^ 43"
proof -
  have near: "\<bar>round_double x - x\<bar> \<le> 1 / 2 ^ 43" by (rule round_double_near [OF assms])
  have "(1::real) / 2 ^ 43 \<le> 1" by simp
  with near assms have "\<bar>round_double x\<bar> \<le> 1025" by linarith
  moreover have "(1025::real) < 2 ^ 1024"
  proof -
    have "(1025::real) < 2 ^ 11" by simp
    also have "\<dots> \<le> 2 ^ 1024" by (rule power_increasing) simp_all
    finally show ?thesis .
  qed
  ultimately have "round_double x < 2 ^ 1024" "- (2 ^ 1024) < round_double x" by linarith+
  then have "to_double x = Fin (round_double x)"
    by (simp add: to_double_def Let_def)
  with near show ?thesis by blast
qed

lemma foldl_dadd_near:
  assumes "list_all (\<lambda>x. is_fin x \<and> \<bar>the_fin x\<bar> \<le> 100) xs"
    and "\<bar>a - A\<bar> \<le> real n / 2 ^ 43"
    and "\<bar>A\<bar> + 100 * real (length xs) \<le> 900"
    and "n + length xs \<le> 10"
  shows "\<exists>s. foldl dadd (Fin a) xs = Fin s
           \<and> \<bar>s - (A + sum_list (map the_fin xs))\<bar> \<le> real (n + length xs) / 2 ^ 43"
  using assms
proof (induction xs arbitrary: a A n)
  case Nil
  then show ?case by simp
next
  case (Cons x xs)
  from Cons.prems(1) obtain v where x: "x = Fin v" and v: "\<bar>v\<bar> \<le> 100"
    by (cases x) (auto simp: is_fin_def the_fin_def)
  have small: "real n / 2 ^ 43 \<le> 1"
  proof -
    from Cons.prems(4) have "real n \<le> 10" by simp
    then have "real n / 2 ^ 43 \<le> 10 / 2 ^ 43" by (intro divide_right_mono) simp_all
    also have "\<dots> \<le> 1" by simp
    finally show ?thesis .
  qed
  from Cons.prems(3) have A: "\<bar>A\<bar> + 100 * real (length xs) \<le> 800" by simp
  then have "\<bar>A\<bar> \<le> 800" by (smt (verit) mult_nonneg_nonneg of_nat_0_le_iff)
  with Cons.prems(2) v small have "\<bar>a + v\<bar> \<le> 1024" by linarith
  from to_double_near [OF this] obtain s1
    where s1: "to_double (a + v) = Fin s1" "\<bar>s1 - (a + v)\<bar> \<le> 1 / 2 ^ 43" by blast
  have e1: "\<bar>s1 - (A + v)\<bar> \<le> real (Suc n) / 2 ^ 43"
  proof -
    have "\<bar>s1 - (A + v)\<bar> \<le> \<bar>s1 - (a + v)\<bar> + \<bar>a - A\<bar>" by simp
    also have "\<dots> \<le> 1 / 2 ^ 43 + real n / 2 ^ 43" using s1(2) Cons.prems(2) by simp
    also have "\<dots> = real (Suc n) / 2 ^ 43" by (simp add: add_divide_distrib)
    finally show ?thesis .
  qed
  have m1: "\<bar>A + v\<bar> + 100 * real (length xs) \<le> 900"
    using A v by linarith
  from Cons.prems(1) have all: "list_all (\<lambda>x. is_fin x \<and> \<bar>the_fin x\<bar> \<le> 100) xs" by simp
  from Cons.prems(4) have n1: "Suc n + length xs \<le> 10" by simp
  from Cons.IH [OF all e1 m1 n1] obtain s
    where "foldl dadd (Fin s1) xs = Fin s"
      "\<bar>s - (A + v + sum_list (map the_fin xs))\<bar> \<le> real (Suc n + length xs) / 2 ^ 43" by blast
  then show ?case
    by (simp add: x s1(1) the_fin_simps add.assoc)
qed

lemma fillna_fin_cell: "fillna (Fin c) xs = map (\<lambda>x. if isna x then Fin c else x) xs"
  by (simp add: fillna_def)

lemma demographic_cols_impute_row_double:
  "demographic_cols (impute_row_double r) = impute_lambda_double (demographic_cols r)"
  by (simp add: impute_row_double_def demographic_cols_set impute_lambda_double_def fillna_def
      length_demographic_cols)

lemma sum_the_fin_bound:
  "list_all (\<lambda>x. is_fin x \<and> \<bar>the_fin x\<bar> \<le> M) xs
   \<Longrightarrow> \<bar>sum_list (map the_fin xs)\<bar> \<le> M * real (length xs)"
proof (induction xs)
  case Nil
  then show ?case by simp
next
  case (Cons x xs)
  then have "\<bar>the_fin x\<bar> \<le> M" "\<bar>sum_list (map the_fin xs)\<bar> \<le> M * real (length xs)"
    by simp_all
  then have "\<bar>the_fin x + sum_list (map the_fin xs)\<bar> \<le> M + M * real (length xs)"
    by linarith
  then show ?case by (simp add: algebra_simps)
qed

text \<open>
  Claim C2, amended. A row with exactly one missing demographic cell, the five others
  finite and at most 100 in size, has six finite cells after the imputation, and these
  add up to 100 within 1e-12: the five known cells are added with five roundings, the
  complement is rounded once, and each rounding is off by at most 2^-43 for numbers of
  this size.
\<close>

theorem Imputer_double_one_missing_sums_to_100:
  assumes "i < length df"
    and "list_all (\<lambda>x. isna x \<or> (is_fin x \<and> \<bar>the_fin x\<bar> \<le> 100)) (demographic_cols (df ! i))"
    and "length (filter isna (demographic_cols (df ! i))) = 1"
  shows "list_all is_fin (demographic_cols (Imputer_double df ! i))
    \<and> \<bar>sum_list (map the_fin (demographic_cols (Imputer_double df ! i))) - 100\<bar> \<le> 1 / 10 ^ 12"
proof -
  let ?vs = "demographic_cols (df ! i)"
  let ?known = "filter (\<lambda>x. \<not> isna x) ?vs"
  let ?X = "sum_list (map the_fin ?vs)"
  from assms(3) have ex: "list_ex isna ?vs"
    by (metis filter_False length_0_conv list_ex_iff zero_neq_one)
  have weak: "list_all (\<lambda>x. isna x \<or> is_fin x) ?vs"
    using assms(2) by (auto simp: list_all_iff)
  have known: "list_all (\<lambda>x. is_fin x \<and> \<bar>the_fin x\<bar> \<le> 100) ?known"
    using assms(2) by (auto simp: list_all_iff)
  have "length ?known + length (filter isna ?vs) = length ?vs"
    using sum_length_filter_compl [of isna ?vs] by simp
  with assms(3) have len: "length ?known = 5" by (simp add: length_demographic_cols)
  from foldl_dadd_near [OF known, of 0 0 0] len obtain s
    where s: "series_sum_double ?vs = Fin s"
      and "\<bar>s - sum_list (map the_fin ?known)\<bar> \<le> 5 / 2 ^ 43"
    by (auto simp: series_sum_double_def)
  then have sX: "\<bar>s - ?X\<bar> \<le> 5 / 2 ^ 43" by (simp add: the_fin_skip_nan)
  from sum_the_fin_bound [OF known] len have "\<bar>sum_list (map the_fin ?known)\<bar> \<le> 500" by simp
  then have X: "\<bar>?X\<bar> \<le> 500" by (simp add: the_fin_skip_nan)
  have "(5::real) / 2 ^ 43 \<le> 1" by simp
  with sX X have "\<bar>100 - s\<bar> \<le> 1024" by linarith
  from to_double_near [OF this] obtain c
    where c: "to_double (100 - s) = Fin c" and cs: "\<bar>c - (100 - s)\<bar> \<le> 1 / 2 ^ 43" by blast
  have fill: "dsub (Fin 100) (series_sum_double ?vs) = Fin c"
    by (simp add: dsub_def s c)
  have cols: "demographic_cols (Imputer_double df ! i) = fillna (Fin c) ?vs"
    using assms(1) ex
    by (simp add: Imputer_double_def demographic_cols_impute_row_double impute_lambda_double_def fill)
  from fillna_one_sum [OF weak assms(3), of c]
  have fin: "list_all is_fin (fillna (Fin c) ?vs)"
    and total: "sum_list (map the_fin (fillna (Fin c) ?vs)) = ?X + c" by simp_all
  have "\<bar>?X + c - 100\<bar> \<le> \<bar>c - (100 - s)\<bar> + \<bar>s - ?X\<bar>" by linarith
  also have "\<dots> \<le> 1 / 2 ^ 43 + 5 / 2 ^ 43" using cs sX by linarith
  also have "\<dots> \<le> 1 / 10 ^ 12" by simp
  finally have "\<bar>?X + c - 100\<bar> \<le> 1 / 10 ^ 12" .
  with fin total show ?thesis by (simp add: cols)
qed

theorem Imputer_double_one_missing_sums_to_100_witness:
  "0 < length [row_c]
   \<and> list_all (\<lambda>x. isna x \<or> (is_fin x \<and> \<bar>the_fin x\<bar> \<le> 100)) (demographic_cols row_c)
   \<and> length (filter isna (demographic_cols row_c)) = 1
   \<and> demographic_cols (Imputer_double [row_c] ! 0) = [Fin 10, Fin 80, Fin 0, Fin 0, Fin 5, Fin 5]
   \<and> \<bar>sum_list (map the_fin (demographic_cols (Imputer_double [row_c] ! 0))) - 100\<bar> \<le> 1 / 10 ^ 12"
proof -
  have h: "list_all (\<lambda>x. isna x \<or> (is_fin x \<and> \<bar>the_fin x\<bar> \<le> 100)) (demographic_cols row_c)"
    "length (filter isna (demographic_cols row_c)) = 1"
    by (simp_all add: row_c_def demographic_cols_def isna_def is_fin_def the_fin_def)
  have "demographic_cols (Imputer_double [row_c] ! 0) = impute_lambda_double (demographic_cols row_c)"
    by (simp add: Imputer_double_def demographic_cols_impute_row_double)
  also have "\<dots> = [Fin 10, Fin 80, Fin 0, Fin 0, Fin 5, Fin 5]"
    by (simp add: impute_lambda_double_def row_c_def demographic_cols_def isna_def fillna_def
        series_sum_double_def dsub_def to_double_simps)
  finally have v: "demographic_cols (Imputer_double [row_c] ! 0)
      = [Fin 10, Fin 80, Fin 0, Fin 0, Fin 5, Fin 5]" .
  from Imputer_double_one_missing_sums_to_100 [of 0 "[row_c]"] h v show ?thesis by simp
qed

text \<open>
  Claim C10. The Imputer keeps the number of rows and their order; in every row it keeps
  \<open>State\<close>, \<open>TotalPop\<close>, \<open>Income\<close>, \<open>Male\<close>, \<open>Female\<close> and \<open>Female_Proportion\<close>, and every
  demographic cell that was not missing.
\<close>

theorem Imputer_frame:
  fixes df :: "state_record list"
  shows "length (Imputer df) = length df \<and>
    (\<forall>i<length df.
       State (Imputer df ! i) = State (df ! i) \<and> TotalPop (Imputer df ! i) = TotalPop (df ! i) \<and>
       Income (Imputer df ! i) = Income (df ! i) \<and> Male (Imputer df ! i) = Male (df ! i) \<and>
       Female (Imputer df ! i) = Female (df ! i) \<and>
       Female_Proportion (Imputer df ! i) = Female_Proportion (df ! i) \<and>
       (\<forall>k<6. \<not> isna (demographic_cols (df ! i) ! k) \<longrightarrow>
              demographic_cols (Imputer df ! i) ! k = demographic_cols (df ! i) ! k))"
proof -
  have fp: "Female_Proportion (impute_row r) = Female_Proportion r" for r :: state_record
    by (simp add: impute_row_def set_demographic_cols_def)
  have keep: "demographic_cols (impute_row r) ! k = demographic_cols r ! k"
    if "k < 6" "\<not> isna (demographic_cols r ! k)" for r :: state_record and k
    using that by (simp add: demographic_cols_impute_row impute_lambda_keeps length_demographic_cols)
  show ?thesis
    by (simp add: Imputer_def impute_row_other_fields fp keep)
qed

theorem Imputer_frame_witness:
  "length (Imputer [row_d]) = 1 \<and> State (Imputer [row_d] ! 0) = Some ''Test''
   \<and> Female_Proportion (Imputer [row_d] ! 0) = Fin (3/5)
   \<and> \<not> isna (demographic_cols row_d ! 0) \<and> demographic_cols (Imputer [row_d] ! 0) ! 0 = Fin 10"
  using Imputer_frame [of "[row_d]"]
  by (simp add: row_d_def demographic_cols_def isna_def Imputer_def impute_row_def
      set_demographic_cols_def impute_lambda_def fillna_def)

section \<open>Properties of the Deduplicator\<close>

lemma is_duplicate_iff: "is_duplicate df j \<longleftrightarrow> (\<exists>i<j. df ! i = df ! j)"
  by (auto simp: is_duplicate_def list_ex_iff)

lemma length_duplicated_from: "length (duplicated_from seen xs) = length xs"
  by (induction xs arbitrary: seen) simp_all

lemma duplicated_from_nth:
  "j < length xs \<Longrightarrow> duplicated_from seen xs ! j = (xs ! j \<in> set seen \<union> set (take j xs))"
proof (induction xs arbitrary: seen j)
  case Nil
  then show ?case by simp
next
  case (Cons x xs)
  show ?case
  proof (cases j)
    case 0
    then show ?thesis by simp
  next
    case (Suc k)
    with Cons.prems have "k < length xs" by simp
    from Cons.IH [OF this, of "seen @ [x]"] Suc show ?thesis by auto
  qed
qed

lemma in_take_iff: "j < length df \<Longrightarrow> df ! j \<in> set (take j df) \<longleftrightarrow> is_duplicate df j"
  by (auto simp: is_duplicate_iff in_set_conv_nth) 

lemma rows_of_frame_of: "rows_of (frame_of df) = df"
  by (simp add: rows_of_def frame_of_def)

lemma duplicated_frame_of:
  "duplicated (frame_of df) = map (is_duplicate df) [0..<length df]"
  by (rule nth_equalityI)
     (simp_all add: duplicated_def rows_of_frame_of length_duplicated_from duplicated_from_nth in_take_iff)

lemma frame_of_map: "frame_of df = map (\<lambda>j. (j, df ! j)) [0..<length df]"
  by (rule nth_equalityI) (simp_all add: frame_of_def)

lemma drop_duplicates_frame_of:
  "drop_duplicates (frame_of df)
     = map (\<lambda>j. (j, df ! j)) (filter (\<lambda>j. \<not> is_duplicate df j) [0..<length df])"
proof -
  have "zip (duplicated (frame_of df)) (frame_of df)
          = map (\<lambda>j. (is_duplicate df j, (j, df ! j))) [0..<length df]"
    unfolding duplicated_frame_of
    by (subst frame_of_map) (simp add: zip_map_map zip_same_conv_map del: upt_Suc)
  then show ?thesis
    by (simp add: drop_duplicates_def filter_map comp_def del: upt_Suc)
qed

lemma duplicate_count_frame_of:
  "duplicate_count (frame_of df) = length (filter (is_duplicate df) [0..<length df])"
  by (simp add: duplicate_count_def duplicated_frame_of filter_map comp_def del: upt_Suc)

lemma length_Deduplicator:
  "length (Deduplicator df) = length df - duplicate_count (frame_of df)"
proof -
  have "length (filter (\<lambda>j. \<not> is_duplicate df j) [0..<length df])
        + length (filter (is_duplicate df) [0..<length df]) = length df"
    using sum_length_filter_compl [of "is_duplicate df" "[0..<length df]"] by simp
  then show ?thesis
    by (simp add: Deduplicator_def reset_index_def rows_of_def drop_duplicates_frame_of
        duplicate_count_frame_of del: upt_Suc)
qed

lemma rows_of_Deduplicator:
  "rows_of (Deduplicator df) = map (nth df) (filter (\<lambda>j. \<not> is_duplicate df j) [0..<length df])"
  by (simp add: Deduplicator_def reset_index_def rows_of_def drop_duplicates_frame_of comp_def del: upt_Suc)

lemma index_Deduplicator: "map fst (Deduplicator df) = [0..<length (Deduplicator df)]"
  by (simp add: Deduplicator_def reset_index_def rows_of_def del: upt_Suc)

lemma distinct_rows_of_Deduplicator: "distinct (rows_of (Deduplicator df))"
proof -
  let ?keep = "filter (\<lambda>j. \<not> is_duplicate df j) [0..<length df]"
  have "inj_on (nth df) (set ?keep)"
  proof (rule inj_onI)
    fix a b assume a: "a \<in> set ?keep" and b: "b \<in> set ?keep" and eq: "df ! a = df ! b"
    show "a = b"
    proof (rule ccontr)
      assume "a \<noteq> b"
      then consider "a < b" | "b < a" by linarith
      then show False
      proof cases
        case 1
        with eq have "is_duplicate df b" by (auto simp: is_duplicate_iff)
        with b show False by simp
      next
        case 2
        with eq have "is_duplicate df a" by (auto simp: is_duplicate_iff)
        with a show False by simp
      qed
    qed
  qed
  then show ?thesis
    by (simp add: rows_of_Deduplicator distinct_map del: upt_Suc)
qed

lemma set_rows_of_Deduplicator: "set (rows_of (Deduplicator df)) = set df"
proof
  show "set (rows_of (Deduplicator df)) \<subseteq> set df"
    by (auto simp: rows_of_Deduplicator)
  show "set df \<subseteq> set (rows_of (Deduplicator df))"
  proof
    fix x assume "x \<in> set df"
    then obtain j where j: "j < length df" "df ! j = x" by (auto simp: in_set_conv_nth)
    define m where "m = (LEAST k. k < length df \<and> df ! k = x)"
    from j have m: "m < length df \<and> df ! m = x"
      unfolding m_def by (metis (mono_tags, lifting) LeastI)
    have "\<not> is_duplicate df m"
    proof
      assume "is_duplicate df m"
      then obtain i where i: "i < m" "df ! i = df ! m" by (auto simp: is_duplicate_iff)
      with m have "i < length df \<and> df ! i = x" by simp
      then have "m \<le> i" unfolding m_def by (rule Least_le)
      with i show False by simp
    qed
    with m show "x \<in> set (rows_of (Deduplicator df))"
      by (auto simp: rows_of_Deduplicator image_iff)
  qed
qed

lemma kept_labels:
  "map fst (drop_duplicates (frame_of df)) = filter (\<lambda>j. \<not> is_duplicate df j) [0..<length df]"
  by (simp add: drop_duplicates_frame_of comp_def del: upt_Suc)

text \<open>
  Claim C3, as stated, ends with: if rows \<open>i\<close> and \<open>j\<close> are identical, exactly one of the
  two remains. With three copies of a row, the rows 1 and 2 are identical and both are
  dropped, each being a duplicate of row 0.
\<close>

theorem Deduplicator_three_copies:
  "[census_a, census_a, census_a] ! 1 = [census_a, census_a, census_a] ! 2
   \<and> 1 \<notin> set (map fst (drop_duplicates (frame_of [census_a, census_a, census_a])))
   \<and> 2 \<notin> set (map fst (drop_duplicates (frame_of [census_a, census_a, census_a])))"
  by (simp add: drop_duplicates_def frame_of_def duplicated_def rows_of_def upt_rec [of 0] upt_rec [of 1] upt_rec [of 2])

text \<open>
  Claim C3, amended. The Deduplicator removes exactly the rows that are exact duplicates
  of an earlier row and keeps the others in their order; the result is indexed
  0, 1, 2, ...; its length is the original length minus the number of duplicate rows
  (the \<open>duplicate_count\<close> of line 88); no row occurs twice in it and every row of the
  input occurs in it. If rows \<open>i < j\<close> are identical, row \<open>j\<close> is dropped, and row \<open>i\<close>
  remains exactly when no row before \<open>i\<close> is identical to it.
\<close>

theorem Deduplicator_keeps_first_occurrences:
  "map fst (drop_duplicates (frame_of df)) = filter (\<lambda>j. \<not> is_duplicate df j) [0..<length df]
   \<and> rows_of (Deduplicator df)
       = map (nth df) (filter (\<lambda>j. \<not> is_duplicate df j) [0..<length df])
   \<and> map fst (Deduplicator df) = [0..<length (Deduplicator df)]
   \<and> duplicate_count (frame_of df) = length (filter (is_duplicate df) [0..<length df])
   \<and> length (Deduplicator df) = length df - duplicate_count (frame_of df)
   \<and> distinct (rows_of (Deduplicator df)) \<and> set (rows_of (Deduplicator df)) = set df
   \<and> (\<forall>i j. i < j \<and> j < length df \<and> df ! i = df ! j \<longrightarrow>
         j \<notin> set (map fst (drop_duplicates (frame_of df)))
         \<and> (i \<in> set (map fst (drop_duplicates (frame_of df))) \<longleftrightarrow> \<not> is_duplicate df i))"
proof -
  have pair: "j \<notin> set (map fst (drop_duplicates (frame_of df)))
      \<and> (i \<in> set (map fst (drop_duplicates (frame_of df))) \<longleftrightarrow> \<not> is_duplicate df i)"
    if "i < j" "j < length df" "df ! i = df ! j" for i j
  proof -
    from that have "is_duplicate df j" by (auto simp: is_duplicate_iff)
    moreover from that have "i < length df" by simp
    ultimately show ?thesis by (simp add: kept_labels del: upt_Suc)
  qed
  show ?thesis
    using kept_labels [of df] rows_of_Deduplicator [of df] index_Deduplicator [of df]
      duplicate_count_frame_of [of df] length_Deduplicator [of df]
      distinct_rows_of_Deduplicator [of df] set_rows_of_Deduplicator [of df] pair
    by blast
qed

theorem Deduplicator_keeps_first_occurrences_witness:
  "(0::nat) < 2 \<and> 2 < length [census_a, census_b, census_a]
   \<and> [census_a, census_b, census_a] ! 0 = [census_a, census_b, census_a] ! 2
   \<and> rows_of (Deduplicator [census_a, census_b, census_a]) = [census_a, census_b]
   \<and> map fst (Deduplicator [census_a, census_b, census_a]) = [0, 1]
   \<and> duplicate_count (frame_of [census_a, census_b, census_a]) = 1
   \<and> 2 \<notin> set (map fst (drop_duplicates (frame_of [census_a, census_b, census_a])))
   \<and> 0 \<in> set (map fst (drop_duplicates (frame_of [census_a, census_b, census_a])))"
proof -
  let ?df = "[census_a, census_b, census_a]"
  have ne: "census_a \<noteq> census_b" by (simp add: census_a_def census_b_def)
  have pair: "(0::nat) < 2 \<and> 2 < length ?df \<and> ?df ! 0 = ?df ! 2" by simp
  have first: "\<not> is_duplicate ?df 0" by (simp add: is_duplicate_def)
  from Deduplicator_keeps_first_occurrences [of ?df] pair first
  have kept: "2 \<notin> set (map fst (drop_duplicates (frame_of ?df)))
      \<and> 0 \<in> set (map fst (drop_duplicates (frame_of ?df)))"
    by blast
  have "rows_of (Deduplicator ?df) = [census_a, census_b]
      \<and> map fst (Deduplicator ?df) = [0, 1] \<and> duplicate_count (frame_of ?df) = 1"
    using ne
    by (simp add: Deduplicator_def reset_index_def drop_duplicates_def frame_of_def
        duplicated_def rows_of_def duplicate_count_def
        upt_rec [of 0] upt_rec [of 1] upt_rec [of 2])
  with pair kept show ?thesis by blast
qed

section \<open>Properties of the top-five query\<close>

lemma income_key_inj: "income_key x = income_key y \<longleftrightarrow> x = y"
  by (cases x; cases y) (simp_all add: income_key_def)

lemma income_key_fin: "income_key (Fin a) \<le> income_key (Fin b) \<longleftrightarrow> b \<le> a"
  by (simp add: income_key_def less_eq_prod_def)

lemma filter_take_prefix:
  "filter P (take n xs) = take (length (filter P (take n xs))) (filter P xs)"
proof -
  have "filter P xs = filter P (take n xs) @ filter P (drop n xs)"
    by (metis append_take_drop_id filter_append)
  then show ?thesis by simp
qed

lemma sorted_take_drop:
  "sorted (map f xs) \<Longrightarrow> a \<in> set (take n xs) \<Longrightarrow> b \<in> set (drop n xs) \<Longrightarrow> f a \<le> f b"
proof -
  assume s: "sorted (map f xs)" and a: "a \<in> set (take n xs)" and b: "b \<in> set (drop n xs)"
  have "map f xs = map f (take n xs) @ map f (drop n xs)"
    by (metis append_take_drop_id map_append)
  with s have "sorted (map f (take n xs) @ map f (drop n xs))" by simp
  with a b show ?thesis by (auto simp: sorted_append)
qed

text \<open>
  Claim C8, as stated: the query returns exactly five distinct states. A table of one row
  gives one row; and two rows that differ in a percentage but name the same state are no
  duplicates of each other, so the same state is returned twice.
\<close>

theorem nlargest_short_table:
  "length (nlargest 5 [row_a]) = 1
   \<and> length (top_income_states [row_a]) = 1
   \<and> row_a \<noteq> row_b
   \<and> map State (nlargest 5 [row_a, row_b]) = [Some ''Test'', Some ''Test'']"
  by (simp add: nlargest_def top_income_states_def row_a_def row_b_def)

text \<open>
  Claim C8, amended. The query returns min (5, number of rows) rows, in descending order
  of \<open>Income\<close> (rows without an income last); rows of equal income come in their original
  order, being the first rows of that income in the table; no row left out has a higher
  income than a row returned; and the states returned are distinct when the states of
  the table are.
\<close>

theorem nlargest_five:
  fixes df :: "state_record list"
  shows "length (nlargest 5 df) = min 5 (length df)
    \<and> sorted (map (\<lambda>r. income_key (Income r)) (nlargest 5 df))
    \<and> (\<forall>i j a b. i < j \<and> j < length (nlargest 5 df)
          \<and> Income (nlargest 5 df ! i) = Fin a \<and> Income (nlargest 5 df ! j) = Fin b \<longrightarrow> b \<le> a)
    \<and> (\<forall>v. filter (\<lambda>r. Income r = v) (nlargest 5 df)
            = take (length (filter (\<lambda>r. Income r = v) (nlargest 5 df)))
                (filter (\<lambda>r. Income r = v) df))
    \<and> (\<exists>rest. mset (nlargest 5 df @ rest) = mset df
          \<and> (\<forall>a \<in> set (nlargest 5 df). \<forall>b \<in> set rest.
                income_key (Income a) \<le> income_key (Income b)))
    \<and> (distinct (map State df) \<longrightarrow> distinct (map State (nlargest 5 df)))"
proof -
  let ?key = "\<lambda>r::state_record. income_key (Income r)"
  let ?s = "sort_key ?key df"
  have len: "length (nlargest 5 df) = min 5 (length df)"
    by (simp add: nlargest_def min.commute)
  have srt: "sorted (map ?key (nlargest 5 df))"
    unfolding nlargest_def take_map [symmetric] by (rule sorted_wrt_take) simp
  have desc: "b \<le> a"
    if "i < j" "j < length (nlargest 5 df)"
      "Income (nlargest 5 df ! i) = Fin a" "Income (nlargest 5 df ! j) = Fin b" for i j a b
  proof -
    from srt that(1,2)
    have "map ?key (nlargest 5 df) ! i \<le> map ?key (nlargest 5 df) ! j"
      by (intro sorted_nth_mono) simp_all
    with that show ?thesis by (simp add: income_key_fin)
  qed
  have stable: "filter (\<lambda>r. Income r = v) (nlargest 5 df)
      = take (length (filter (\<lambda>r. Income r = v) (nlargest 5 df))) (filter (\<lambda>r. Income r = v) df)"
    for v
  proof -
    have "filter (\<lambda>r. Income r = v) ?s = filter (\<lambda>r. ?key r = income_key v) ?s"
      by (simp add: income_key_inj)
    also have "\<dots> = filter (\<lambda>r. ?key r = income_key v) df"
      by (rule sort_key_stable)
    also have "\<dots> = filter (\<lambda>r. Income r = v) df"
      by (simp add: income_key_inj)
    finally have eq: "filter (\<lambda>r. Income r = v) ?s = filter (\<lambda>r. Income r = v) df" .
    show ?thesis
      unfolding nlargest_def
      using filter_take_prefix [of "\<lambda>r. Income r = v" 5 ?s] by (simp only: eq)
  qed
  have sel: "\<exists>rest. mset (nlargest 5 df @ rest) = mset df
      \<and> (\<forall>a \<in> set (nlargest 5 df). \<forall>b \<in> set rest. ?key a \<le> ?key b)"
  proof (intro exI conjI ballI)
    show "mset (nlargest 5 df @ drop 5 ?s) = mset df"
      by (simp add: nlargest_def)
    fix a b assume "a \<in> set (nlargest 5 df)" "b \<in> set (drop 5 ?s)"
    then show "?key a \<le> ?key b"
      unfolding nlargest_def by (intro sorted_take_drop [where xs = ?s and n = 5]) simp_all
  qed
  have dist: "distinct (map State (nlargest 5 df))" if "distinct (map State df)"
  proof -
    have "mset (map State ?s) = mset (map State df)" by simp
    with that have "distinct (map State ?s)"
      by (metis distinct_count_atmost_1 set_mset_mset)
    then show ?thesis
      unfolding nlargest_def take_map [symmetric] by (rule distinct_take)
  qed
  from len srt desc stable sel dist show ?thesis by blast
qed

lemma nlargest_six_states:
  "nlargest 5 six_states = [sample_state ''F'' 40, sample_state ''B'' 30, sample_state ''D'' 30,
                            sample_state ''C'' 20, sample_state ''A'' 10]"
  by (simp add: nlargest_def six_states_def sample_state_def income_key_def less_eq_prod_def)

theorem nlargest_five_witness:
  "distinct (map State six_states)
   \<and> map State (nlargest 5 six_states) = [Some ''F'', Some ''B'', Some ''D'', Some ''C'', Some ''A'']
   \<and> (1::nat) < 2 \<and> 2 < length (nlargest 5 six_states)
   \<and> Income (nlargest 5 six_states ! 1) = Fin 30 \<and> Income (nlargest 5 six_states ! 2) = Fin 30
   \<and> distinct (map State (nlargest 5 six_states))"
proof -
  have d: "distinct (map State six_states)"
    by (simp add: six_states_def sample_state_def)
  from nlargest_five [of six_states] d have "distinct (map State (nlargest 5 six_states))"
    by blast
  with d show ?thesis
    by (simp add: nlargest_six_states) (simp add: sample_state_def)
qed

section \<open>Properties of the Field Normalizer\<close>

subsection \<open>The composite gender field\<close>

lemma digit_cases:
  "d < 10 \<Longrightarrow> d = 0 \<or> d = 1 \<or> d = 2 \<or> d = 3 \<or> d = 4 \<or> d = 5 \<or> d = 6 \<or> d = 7 \<or> d = 8 \<or> d = (9::nat)"
  by arith

lemma is_digit_digit_char: "d < 10 \<Longrightarrow> is_digit (digit_char d)"
  using digit_cases [of d] by (auto simp: digit_char_def is_digit_def)

lemma digit_val_digit_char: "d < 10 \<Longrightarrow> digit_val (digit_char d) = d"
  using digit_cases [of d] by (auto simp: digit_val_def digit_char_def)

lemma dec_digits: "list_all is_digit (dec n)"
proof (induction n rule: dec.induct)
  case (1 n)
  then show ?case
    by (subst dec.simps) (simp add: is_digit_digit_char)
qed

lemma dec_nonempty: "dec n \<noteq> []"
  by (subst dec.simps) simp

lemma nat_of_digits_snoc: "nat_of_digits (ds @ [c]) = 10 * nat_of_digits ds + digit_val c"
  by (simp add: nat_of_digits_def)

lemma nat_of_digits_dec: "nat_of_digits (dec n) = n"
proof (induction n rule: dec.induct)
  case (1 n)
  show ?case
  proof (cases "n < 10")
    case True
    then show ?thesis
      by (subst dec.simps) (simp add: nat_of_digits_def digit_val_digit_char)
  next
    case False
    with 1 have "nat_of_digits (dec (n div 10)) = n div 10" by simp
    with False show ?thesis
      by (subst dec.simps) (simp add: nat_of_digits_snoc digit_val_digit_char)
  qed
qed

lemma digitpart_digits: "ds \<noteq> [] \<Longrightarrow> list_all is_digit ds \<Longrightarrow> digitpart ds"
proof (induction ds rule: digitpart.induct)
  case 1
  then show ?case by simp
next
  case (2 c)
  then show ?case by simp
next
  case (3 c d cs)
  from "3.prems" have d: "is_digit d" by simp
  then have "d \<noteq> CHR ''_''" by (auto simp: is_digit_def)
  with 3 show ?case by simp
qed

lemma filter_digits: "list_all is_digit ds \<Longrightarrow> filter is_digit ds = ds"
  by (simp add: list_all_iff)

lemma digit_not_space: "is_digit c \<Longrightarrow> \<not> is_space c"
  by (auto simp: is_digit_def is_space_def)

lemma strip_id: "s \<noteq> [] \<Longrightarrow> \<not> is_space (hd s) \<Longrightarrow> \<not> is_space (last s) \<Longrightarrow> strip s = s"
proof -
  assume a: "s \<noteq> []" "\<not> is_space (hd s)" "\<not> is_space (last s)"
  then have 1: "dropWhile is_space s = s" by (cases s) simp_all
  from a have "rev s \<noteq> []" "\<not> is_space (hd (rev s))" by (simp_all add: hd_rev)
  then have 2: "dropWhile is_space (rev s) = rev s" by (cases "rev s") simp_all
  show ?thesis by (simp add: strip_def 1 2)
qed







lemma split_on_nonempty: "split_on sep s \<noteq> []"
  by (induction s) (auto split: list.splits)












subsection \<open>The currency field\<close>

lemma to_ascii_digit: "is_digit c \<Longrightarrow> to_ascii c = c"
  by (auto simp: is_digit_def to_ascii_def)

lemma digit_not_point: "is_digit c \<Longrightarrow> c \<noteq> CHR ''.''"
  by (auto simp: is_digit_def)

lemma digit_not_e: "is_digit c \<Longrightarrow> c \<noteq> CHR ''e'' \<and> c \<noteq> CHR ''E''"
  by (auto simp: is_digit_def)

lemma lower_digit: "is_digit c \<Longrightarrow> lower c = c"
  by (auto simp: is_digit_def lower_def)

lemma number_digits:
  "ds \<noteq> [] \<Longrightarrow> list_all is_digit ds \<Longrightarrow> number ds = Some (real (nat_of_digits ds))"
proof -
  assume a: "ds \<noteq> []" "list_all is_digit ds"
  then have "\<forall>c \<in> set ds. c \<noteq> CHR ''.''" by (auto simp: list_all_iff digit_not_point)
  then have tw: "takeWhile (\<lambda>c. c \<noteq> CHR ''.'') ds = ds"
    and dw: "dropWhile (\<lambda>c. c \<noteq> CHR ''.'') ds = []"
    by simp_all
  show ?thesis
    unfolding number_def Let_def tw dw
    using a by (simp add: digitpart_digits digitpart_val_def filter_digits)
qed

lemma number_fraction:
  assumes "ip \<noteq> []" "list_all is_digit ip" "fp \<noteq> []" "list_all is_digit fp"
  shows "number (ip @ ''.'' @ fp)
         = Some (real (nat_of_digits ip) + real (nat_of_digits fp) / 10 ^ length fp)"
proof -
  from assms have "\<forall>c \<in> set ip. c \<noteq> CHR ''.''" by (auto simp: list_all_iff digit_not_point)
  then have tw: "takeWhile (\<lambda>c. c \<noteq> CHR ''.'') (ip @ ''.'' @ fp) = ip"
    and dw: "dropWhile (\<lambda>c. c \<noteq> CHR ''.'') (ip @ ''.'' @ fp) = ''.'' @ fp"
    by (simp_all add: takeWhile_append dropWhile_append)
  show ?thesis
    unfolding number_def Let_def tw dw
    using assms by (simp add: digitpart_digits digitpart_val_def filter_digits)
qed

lemma floatnumber_no_exponent:
  "\<forall>c \<in> set t. c \<noteq> CHR ''e'' \<and> c \<noteq> CHR ''E'' \<Longrightarrow> floatnumber t = number t"
proof -
  assume a: "\<forall>c \<in> set t. c \<noteq> CHR ''e'' \<and> c \<noteq> CHR ''E''"
  then have tw: "takeWhile (\<lambda>c. \<not> (c = CHR ''e'' \<or> c = CHR ''E'')) t = t"
    and dw: "dropWhile (\<lambda>c. \<not> (c = CHR ''e'' \<or> c = CHR ''E'')) t = []"
    by simp_all
  show ?thesis
    unfolding floatnumber_def Let_def tw dw
    by (simp split: option.splits)
qed

lemma py_float_plain:
  assumes "s \<noteq> []" "is_digit (hd s)" "is_digit (last s)"
    and "\<forall>c \<in> set s. to_ascii c = c \<and> c \<noteq> CHR ''e'' \<and> c \<noteq> CHR ''E''"
    and "number s = Some v"
  shows "py_float s = Inr (to_double v)"
proof -
  from assms(4) have asc: "map to_ascii s = s" by (simp add: map_idI)
  from assms have st: "strip s = s"
    by (intro strip_id) (simp_all add: digit_not_space)
  from assms have sg: "split_sign s = (1, s)"
    by (cases s) (auto simp: split_sign_def is_digit_def)
  from assms have "hd (map lower s) = hd s"
    by (cases s) (simp_all add: lower_digit)
  with assms have "is_digit (hd (map lower s))" by simp
  then have l: "map lower s \<noteq> ''inf''" "map lower s \<noteq> ''infinity''" "map lower s \<noteq> ''nan''"
    by (auto simp: is_digit_def)
  show ?thesis
    using l assms(4,5) by (simp add: py_float_def asc st sg floatnumber_no_exponent)
qed

lemma py_float_digits:
  assumes "ds \<noteq> []" "list_all is_digit ds"
  shows "py_float ds = Inr (to_double (real (nat_of_digits ds)))"
proof (rule py_float_plain)
  show "ds \<noteq> []" by fact
  from assms show "is_digit (hd ds)" "is_digit (last ds)"
    by (auto simp: list_all_iff)
  from assms show "\<forall>c \<in> set ds. to_ascii c = c \<and> c \<noteq> CHR ''e'' \<and> c \<noteq> CHR ''E''"
    by (auto simp: list_all_iff to_ascii_digit dest: digit_not_e)
  from assms show "number ds = Some (real (nat_of_digits ds))" by (rule number_digits)
qed

lemma py_float_fraction:
  assumes "ip \<noteq> []" "list_all is_digit ip" "fp \<noteq> []" "list_all is_digit fp"
  shows "py_float (ip @ ''.'' @ fp)
         = Inr (to_double (real (nat_of_digits ip) + real (nat_of_digits fp) / 10 ^ length fp))"
proof (rule py_float_plain)
  show "ip @ ''.'' @ fp \<noteq> []" by simp
  from assms show "is_digit (hd (ip @ ''.'' @ fp))" "is_digit (last (ip @ ''.'' @ fp))"
    by (auto simp: list_all_iff)
  show "\<forall>c \<in> set (ip @ ''.'' @ fp). to_ascii c = c \<and> c \<noteq> CHR ''e'' \<and> c \<noteq> CHR ''E''"
  proof
    fix c assume "c \<in> set (ip @ ''.'' @ fp)"
    then consider "c \<in> set ip \<or> c \<in> set fp" | "c = CHR ''.''" by auto
    then show "to_ascii c = c \<and> c \<noteq> CHR ''e'' \<and> c \<noteq> CHR ''E''"
    proof cases
      case 1
      with assms have "is_digit c" by (auto simp: list_all_iff)
      then show ?thesis using to_ascii_digit digit_not_e by blast
    next
      case 2
      then show ?thesis by (simp add: to_ascii_def)
    qed
  qed
  from assms show "number (ip @ ''.'' @ fp)
      = Some (real (nat_of_digits ip) + real (nat_of_digits fp) / 10 ^ length fp)"
    by (rule number_fraction)
qed


lemma filter_group3: "\<not> P CHR '','' \<Longrightarrow> filter P (group3 ds) = filter P ds"
  by (induction ds rule: group3.induct) simp_all


lemma digit_not_dollar_comma: "is_digit c \<Longrightarrow> c \<noteq> CHR ''$'' \<and> c \<noteq> CHR '',''"
  by (auto simp: is_digit_def)

lemma filter_keep_digits:
  "list_all is_digit ds \<Longrightarrow> filter (\<lambda>c. c \<noteq> CHR ''$'' \<and> c \<noteq> CHR '','') ds = ds"
  by (simp add: filter_id_conv list_all_iff digit_not_dollar_comma)

lemma remove_chars_eq: "remove_chars ''$,'' s = filter (\<lambda>c. c \<noteq> CHR ''$'' \<and> c \<noteq> CHR '','') s"
  by (simp add: remove_chars_def)

lemma remove_chars_currency: "remove_chars ''$,'' (currency n) = dec n"
proof -
  let ?P = "\<lambda>c. c \<noteq> CHR ''$'' \<and> c \<noteq> CHR '',''"
  have "remove_chars ''$,'' (currency n) = filter ?P (rev (group3 (rev (dec n))))"
    unfolding remove_chars_eq currency_def by simp
  also have "\<dots> = rev (filter ?P (group3 (rev (dec n))))"
    by (simp only: rev_filter)
  also have "filter ?P (group3 (rev (dec n))) = filter ?P (rev (dec n))"
    by (rule filter_group3) simp
  also have "rev (filter ?P (rev (dec n))) = filter ?P (dec n)"
    by (simp only: rev_filter rev_rev_ident)
  also have "\<dots> = dec n"
    by (rule filter_keep_digits) (rule dec_digits)
  finally show ?thesis .
qed

lemma remove_chars_fraction:
  assumes "list_all is_digit fp"
  shows "remove_chars ''$,'' (currency n @ ''.'' @ fp) = dec n @ ''.'' @ fp"
proof -
  let ?P = "\<lambda>c. c \<noteq> CHR ''$'' \<and> c \<noteq> CHR '',''"
  have "remove_chars ''$,'' (currency n @ ''.'' @ fp)
      = remove_chars ''$,'' (currency n) @ filter ?P ''.'' @ filter ?P fp"
    unfolding remove_chars_eq by (simp only: filter_append)
  also have "filter ?P ''.'' = ''.''" by simp
  also have "filter ?P fp = fp" using assms by (rule filter_keep_digits)
  finally show ?thesis by (simp only: remove_chars_currency)
qed

text \<open>
  Claim C7, as stated: cleaning a valid currency string gives the exact numeric value.
  The value is a double: the amount \<open>$9,007,199,254,740,993\<close>, which is \<open>2 ^ 53 + 1\<close>,
  is cleaned to \<open>9007199254740992.0\<close>.
\<close>

theorem clean_Income_large_amount:
  "currency 9007199254740993 = ''$9,007,199,254,740,993''
   \<and> clean_Income (Some ''$9,007,199,254,740,993'') = Inr (Fin 9007199254740992)"
proof -
  have c: "currency 9007199254740993 = ''$9,007,199,254,740,993''"
    by (simp add: currency_def dec.simps digit_char_def)
  have "clean_Income (Some (currency 9007199254740993)) = Inr (to_double 9007199254740993)"
    using remove_chars_currency [of 9007199254740993] py_float_digits [of "dec 9007199254740993"]
    by (simp add: clean_Income_def astype_float_def dec_nonempty dec_digits nat_of_digits_dec)
  moreover have "to_double 9007199254740993 = Fin 9007199254740992"
    by (simp add: to_double_def round_double_odd)
  ultimately show ?thesis by (simp add: c)
qed

text \<open>
  Claim C7, amended. For every currency string made of the symbol \<open>$\<close> and the digits of
  a whole number \<open>n\<close> in groups of three separated by commas, cleaning the Income field
  gives the double nearest to \<open>n\<close> (ties to even, infinity from \<open>2 ^ 1024\<close> on); this is
  \<open>n\<close> itself when \<open>n\<close> is at most \<open>2 ^ 53\<close>. When a point and decimals follow, it gives the
  double nearest to the decimal value.
\<close>

theorem clean_Income_currency:
  "clean_Income (Some (currency n)) = Inr (to_double (real n))
   \<and> (n \<le> 2 ^ 53 \<longrightarrow> clean_Income (Some (currency n)) = Inr (Fin (real n)))
   \<and> (fp \<noteq> [] \<and> list_all is_digit fp \<longrightarrow>
        clean_Income (Some (currency n @ ''.'' @ fp))
          = Inr (to_double (real n + real (nat_of_digits fp) / 10 ^ length fp)))"
proof -
  have "py_float (dec n) = Inr (to_double (real (nat_of_digits (dec n))))"
    using dec_nonempty dec_digits by (rule py_float_digits)
  then have whole: "clean_Income (Some (currency n)) = Inr (to_double (real n))"
    by (simp only: clean_Income_def astype_float_def option.map option.case
        remove_chars_currency nat_of_digits_dec)
  have exact: "to_double (real n) = Fin (real n)" if "n \<le> 2 ^ 53"
  proof -
    from that have "int n \<le> 2 ^ 53"
      by (simp add: of_nat_le_iff [of n "2 ^ 53", symmetric] del: of_nat_le_iff)
    then have "\<bar>int n\<bar> \<le> 2 ^ 53" by simp
    from to_double_of_int [OF this] show ?thesis by simp
  qed
  have frac: "clean_Income (Some (currency n @ ''.'' @ fp))
      = Inr (to_double (real n + real (nat_of_digits fp) / 10 ^ length fp))"
    if "fp \<noteq> []" "list_all is_digit fp"
  proof -
    have "py_float (dec n @ ''.'' @ fp)
        = Inr (to_double (real (nat_of_digits (dec n)) + real (nat_of_digits fp) / 10 ^ length fp))"
      using dec_nonempty dec_digits that by (rule py_float_fraction)
    then show ?thesis
      by (simp only: clean_Income_def astype_float_def option.map option.case
          remove_chars_fraction [OF that(2)] nat_of_digits_dec)
  qed
  show ?thesis
  proof (intro conjI impI)
    show "clean_Income (Some (currency n)) = Inr (to_double (real n))" by (rule whole)
  next
    assume "n \<le> 2 ^ 53"
    then show "clean_Income (Some (currency n)) = Inr (Fin (real n))"
      by (simp only: whole exact)
  next
    assume "fp \<noteq> [] \<and> list_all is_digit fp"
    then show "clean_Income (Some (currency n @ ''.'' @ fp))
        = Inr (to_double (real n + real (nat_of_digits fp) / 10 ^ length fp))"
      using frac by blast
  qed
qed

lemma currency_45200: "currency 45200 = ''$45,200''"
  by (simp add: currency_def dec.simps digit_char_def)

theorem clean_Income_currency_witness:
  "(45200 :: nat) \<le> 2 ^ 53 \<and> currency 45200 = ''$45,200''
   \<and> clean_Income (Some ''$45,200'') = Inr (Fin 45200)
   \<and> ''36'' \<noteq> [] \<and> list_all is_digit ''36''
   \<and> clean_Income (Some ''$45,200.36'') = Inr (to_double (45200 + 36 / 100))"
proof -
  have le: "(45200 :: nat) \<le> 2 ^ 53" by simp
  have f: "''36'' \<noteq> [] \<and> list_all is_digit ''36''"
    by (simp add: is_digit_def)
  have v: "nat_of_digits ''36'' = 36"
    by (simp add: nat_of_digits_def digit_val_def)
  note t = clean_Income_currency [of 45200 "''36''"]
  from t le have "clean_Income (Some (currency 45200)) = Inr (Fin (real (45200 :: nat)))"
    by blast
  then have a: "clean_Income (Some ''$45,200'') = Inr (Fin 45200)"
    by (simp add: currency_45200)
  from t f have "clean_Income (Some (currency 45200 @ ''.'' @ ''36''))
      = Inr (to_double (real (45200 :: nat) + real (nat_of_digits ''36'') / 10 ^ length ''36''))"
    by blast
  then have b: "clean_Income (Some ''$45,200.36'') = Inr (to_double (45200 + 36 / 100))"
    by (simp add: currency_45200 v)
  from le f a b show ?thesis by (simp only: currency_45200 simp_thms)
qed

section \<open>Properties of the Feature Deriver\<close>

lemmas parse_defs = py_float_def py_int_def to_ascii_def strip_def is_space_def split_sign_def
  lower_def floatnumber_def number_def digitpart_val_def nat_of_digits_def digit_val_def
  is_digit_def remove_chars_def astype_float_def to_double_simps

lemmas normalizer_defs = Field_Normalizer_def require_def clean_Income_def clean_percent_def
  raw_demographic_cols_def gender_columns_def str_split_expand_def split_width_def pad_def
  gender_cell_def strip_marker_def replace_empty_def astype_Int64_def make_row_def Let_def

lemma read_csv_nowhere: "read_csv file_nowhere = [raw_nowhere]"
  by (simp add: read_csv_def file_nowhere_def required_columns_def cell_def raw_nowhere_def)

lemma Field_Normalizer_nowhere:
  "Field_Normalizer (required_columns, [raw_nowhere]) = Inr [census_z]"
  by (simp add: required_columns_def raw_nowhere_def census_z_def normalizer_defs parse_defs)

lemma clean_nowhere:
  "clean [file_nowhere] = Inr [derive_row census_z]"
proof -
  have "concat_files [file_nowhere] = Inr (required_columns, [raw_nowhere])"
    by (simp add: concat_files_def read_csv_nowhere) (simp add: file_nowhere_def)
  then show ?thesis
    by (simp add: clean_def Field_Normalizer_nowhere Deduplicator_def reset_index_def
        drop_duplicates_def frame_of_def duplicated_def rows_of_def Feature_Deriver_def)
qed


lemma true_divide_zero:
  "true_divide f (Some 0)
     = (case f of None \<Rightarrow> NaN | Some x \<Rightarrow> if x = 0 then NaN else if 0 < x then PInf else NInf)"
  by (simp add: true_divide_def split: option.splits)

lemma true_divide_zero_not_fin: "\<not> is_fin (true_divide f (Some 0))"
  by (simp add: true_divide_zero is_fin_simps split: option.splits)

lemma polyfit_not_fin:
  "v \<in> set x \<Longrightarrow> \<not> is_fin v \<Longrightarrow> polyfit rhs_checked x y = Inl LinAlgError"
  by (auto simp: polyfit_def list_ex_iff)

text \<open>
  Claim C6, as stated: a row with \<open>TotalPop\<close> = 0 gets NaN as its \<open>Female_Proportion\<close>, and
  no error ends the pipeline. For a file whose only row has no population and 600
  women, the quotient is plus infinity, which is not NaN and which pandas does not count
  as missing; \<open>np.polyfit\<close> of line 121 then raises \<open>LinAlgError\<close>, and the run ends
  before it has written a file.
\<close>

theorem zero_population_infinite_proportion:
  "raw_TotalPop raw_nowhere = Some 0
   \<and> clean [file_nowhere] = Inr [derive_row census_z]
   \<and> Female_Proportion (derive_row census_z) = PInf
   \<and> \<not> isna (Female_Proportion (derive_row census_z))
   \<and> run True [file_nowhere] = ([], Inl LinAlgError)
   \<and> run False [file_nowhere] = ([], Inl LinAlgError)"
proof -
  have fp: "Female_Proportion (derive_row census_z) = PInf"
    by (simp add: derive_row_def census_z_def true_divide_def)
  have "run rhs_checked [file_nowhere] = ([], Inl LinAlgError)" for rhs_checked
    by (simp add: run_def clean_nowhere polyfit_def fp is_fin_simps)
  then show ?thesis
    by (simp add: clean_nowhere fp isna_def) (simp add: raw_nowhere_def)
qed

text \<open>
  Claim C6, amended. When the input is read and normalised and a row of the table has
  \<open>TotalPop\<close> = 0, the division of line 103 raises nothing: the cleaning stages return
  the table, with that row in it. Its \<open>Female_Proportion\<close> is NaN when \<open>Female\<close> is 0 or
  missing, plus infinity when \<open>Female\<close> is positive and minus infinity when it is
  negative, in no case a finite number. The run then ends with the \<open>LinAlgError\<close> of
  line 121, before any file is written.
\<close>

theorem zero_population_ends_the_run:
  assumes "concat_files files = Inr t" and "Field_Normalizer t = Inr df"
    and "r \<in> set df" and "TotalPop r = Some 0"
  shows "clean files = Inr (Feature_Deriver (rows_of (Deduplicator df)))
    \<and> derive_row r \<in> set (Feature_Deriver (rows_of (Deduplicator df)))
    \<and> Female_Proportion (derive_row r)
        = (case Female r of
             None \<Rightarrow> NaN
           | Some x \<Rightarrow> if x = 0 then NaN else if 0 < x then PInf else NInf)
    \<and> \<not> is_fin (Female_Proportion (derive_row r))
    \<and> run rhs_checked files = ([], Inl LinAlgError)"
proof -
  let ?dfd = "Feature_Deriver (rows_of (Deduplicator df))"
  have c: "clean files = Inr ?dfd"
    using assms(1,2) by (simp add: clean_def)
  from assms(3) have "r \<in> set (rows_of (Deduplicator df))"
    by (simp add: set_rows_of_Deduplicator)
  then have m: "derive_row r \<in> set ?dfd"
    by (simp add: Feature_Deriver_def)
  have fp: "Female_Proportion (derive_row r) = true_divide (Female r) (Some 0)"
    using assms(4) by (simp add: derive_row_def)
  have nf: "\<not> is_fin (Female_Proportion (derive_row r))"
    unfolding fp by (rule true_divide_zero_not_fin)
  from m have "Female_Proportion (derive_row r) \<in> set (map Female_Proportion ?dfd)"
    by simp
  then have "polyfit rhs_checked (map Female_Proportion ?dfd) (map Income ?dfd) = Inl LinAlgError"
    using nf by (rule polyfit_not_fin)
  then have "run rhs_checked files = ([], Inl LinAlgError)"
    by (simp add: run_def c)
  with c m nf show ?thesis
    by (simp add: fp true_divide_zero)
qed

theorem zero_population_ends_the_run_witness:
  "concat_files [file_nowhere] = Inr (required_columns, [raw_nowhere])
   \<and> Field_Normalizer (required_columns, [raw_nowhere]) = Inr [census_z]
   \<and> census_z \<in> set [census_z] \<and> TotalPop census_z = Some 0
   \<and> Female census_z = Some 600
   \<and> Female_Proportion (derive_row census_z) = PInf
   \<and> run True [file_nowhere] = ([], Inl LinAlgError)"
proof -
  have a: "concat_files [file_nowhere] = Inr (required_columns, [raw_nowhere])"
    by (simp add: concat_files_def read_csv_nowhere) (simp add: file_nowhere_def)
  have z: "TotalPop census_z = Some 0" "Female census_z = Some 600"
    by (simp_all add: census_z_def)
  have m: "census_z \<in> set [census_z]" by simp
  from zero_population_ends_the_run [OF a Field_Normalizer_nowhere m z(1), of True]
  have "Female_Proportion (derive_row census_z) = PInf
      \<and> run True [file_nowhere] = ([], Inl LinAlgError)"
    by (simp add: z)
  with a z m show ?thesis
    by (simp add: Field_Normalizer_nowhere)
qed

end
